theory Spec2Isabelle
  imports
    Complex_Main
    "HOL-Library.Word"
    "HOL-Library.Char_ord"
    "HOL-Library.List_Lexorder"
    "HOL-Library.Product_Lexorder"
    "HOL-Library.Log_Nat"
    "HOL-Library.Infinite_Set"
begin

section \<open>JavaScript values\<close>

text \<open>
  A JavaScript string is a \<^typ>\<open>string\<close>; a character stands for one code unit below 256.
  The empty string is the only falsy string. \<open>null\<close> and \<open>undefined\<close> are \<open>None\<close>.
\<close>

type_synonym byte = "8 word"

definition truthy :: "string option \<Rightarrow> bool" where
  "truthy v = (case v of None \<Rightarrow> False | Some s \<Rightarrow> s \<noteq> [])"

text \<open>\<open>x || null\<close> on a string or null.\<close>

definition or_null :: "string option \<Rightarrow> string option" where
  "or_null v = (if truthy v then v else None)"

text \<open>
  \<open>String.prototype.trim\<close>: the white space and line terminator code units below 256 are
  tab, line feed, vertical tab, form feed, carriage return, space and no-break space.
\<close>

definition is_space :: "char \<Rightarrow> bool" where
  "is_space c = (let n = (of_char c :: nat) in (9 \<le> n \<and> n \<le> 13) \<or> n = 32 \<or> n = 160)"

definition js_trim :: "string \<Rightarrow> string" where
  "js_trim s = rev (dropWhile is_space (rev (dropWhile is_space s)))"

section \<open>crypto.js: base64 and PIN hash derivation\<close>

subsection \<open>The platform's \<open>btoa\<close> and \<open>atob\<close>\<close>

definition b64_alphabet :: string where
  "b64_alphabet = ''ABCDEFGHIJKLMNOPQRSTUVWXYZabcdefghijklmnopqrstuvwxyz0123456789+/''"

definition b64_char :: "nat \<Rightarrow> char" where
  "b64_char n = b64_alphabet ! (n mod 64)"

text \<open>
  \<open>btoa\<close>: three characters give four six-bit values, a rest of one or two characters gives
  two or three; the values are written in the alphabet and padded with \<open>=\<close> to a multiple of
  four.
\<close>

fun b64_values :: "string \<Rightarrow> nat list" where
  "b64_values [] = []"
| "b64_values [a] =
     (let x = (of_char a :: nat) in [x div 4, (x mod 4) * 16])"
| "b64_values [a, b] =
     (let x = (of_char a :: nat); y = (of_char b :: nat)
      in [x div 4, (x mod 4) * 16 + y div 16, (y mod 16) * 4])"
| "b64_values (a # b # c # rest) =
     (let x = (of_char a :: nat); y = (of_char b :: nat); z = (of_char c :: nat)
      in [x div 4, (x mod 4) * 16 + y div 16, (y mod 16) * 4 + z div 64, z mod 64]
         @ b64_values rest)"

definition btoa :: "string \<Rightarrow> string" where
  "btoa s = map b64_char (b64_values s) @ replicate ((3 - length s mod 3) mod 3) (CHR ''='')"

text \<open>
  \<open>atob\<close>: white space is dropped, then one or two \<open>=\<close> at the end of a string whose length
  is a multiple of four; what is left must be of the alphabet and not one character more
  than a multiple of four.
\<close>

definition b64_index :: "char \<Rightarrow> nat option" where
  "b64_index c =
     (let n = (of_char c :: nat)
      in if 65 \<le> n \<and> n \<le> 90 then Some (n - 65)
         else if 97 \<le> n \<and> n \<le> 122 then Some (n - 71)
         else if 48 \<le> n \<and> n \<le> 57 then Some (n + 4)
         else if n = 43 then Some 62
         else if n = 47 then Some 63
         else None)"

definition is_ascii_whitespace :: "char \<Rightarrow> bool" where
  "is_ascii_whitespace c =
     (let n = (of_char c :: nat) in n = 9 \<or> n = 10 \<or> n = 12 \<or> n = 13 \<or> n = 32)"

fun b64_groups :: "nat list \<Rightarrow> string" where
  "b64_groups (a # b # c # d # rest) =
     [char_of (a * 4 + b div 16), char_of ((b mod 16) * 16 + c div 4),
      char_of ((c mod 4) * 64 + d)] @ b64_groups rest"
| "b64_groups [a, b, c] = [char_of (a * 4 + b div 16), char_of ((b mod 16) * 16 + c div 4)]"
| "b64_groups [a, b] = [char_of (a * 4 + b div 16)]"
| "b64_groups [a] = []"
| "b64_groups [] = []"

definition strip_padding :: "string \<Rightarrow> string" where
  "strip_padding s =
     (if length s mod 4 = 0 \<and> s \<noteq> [] \<and> last s = CHR ''=''
      then (let s1 = butlast s in if s1 \<noteq> [] \<and> last s1 = CHR ''='' then butlast s1 else s1)
      else s)"

text \<open>\<open>atob\<close> throws an \<open>InvalidCharacterError\<close> where this returns \<open>None\<close>.\<close>

definition atob :: "string \<Rightarrow> string option" where
  "atob s =
     (let s1 = strip_padding (filter (\<lambda>c. \<not> is_ascii_whitespace c) s)
      in if length s1 mod 4 = 1 then None
         else (case those (map b64_index s1) of
                 None \<Rightarrow> None
               | Some vs \<Rightarrow> Some (b64_groups vs)))"

subsection \<open>The module\<close>

datatype error =
    Error string
  | InvalidCharacterError
  | EngineError

text \<open>
  The platform primitives the module calls and does not define: whether \<open>crypto.subtle\<close>
  exists, \<open>TextEncoder.encode\<close>, and \<open>deriveBits\<close> for PBKDF2 with SHA-256 (key material,
  salt, iterations, number of bits).
\<close>

record platform =
  has_subtle :: bool
  text_encode :: "string \<Rightarrow> byte list"
  pbkdf2 :: "byte list \<Rightarrow> byte list \<Rightarrow> int \<Rightarrow> int \<Rightarrow> byte list"

text \<open>
  What one call reads from the outside world: the clock (\<open>now E i\<close> is the \<open>i\<close>-th reading
  of \<open>new Date().toISOString()\<close> during the call), the identifier \<open>newId()\<close> draws, and the
  bytes \<open>crypto.getRandomValues\<close> writes into a buffer of the given length.
\<close>

record env =
  now :: "nat \<Rightarrow> string"
  new_id :: string
  random_bytes :: "nat \<Rightarrow> byte list"

definition toBase64 :: "byte list \<Rightarrow> string" where
  "toBase64 bytes = btoa (map (\<lambda>b. char_of (unat b)) bytes)"

definition fromBase64 :: "string \<Rightarrow> byte list option" where
  "fromBase64 base64 = map_option (map (\<lambda>c. of_nat (of_char c))) (atob base64)"

definition generateSaltBase64 :: "env \<Rightarrow> nat \<Rightarrow> string" where
  "generateSaltBase64 E byteLength = toBase64 (random_bytes E byteLength)"

definition derivePinHashBase64 :: "platform \<Rightarrow> string \<Rightarrow> string \<Rightarrow> int \<Rightarrow> error + string" where
  "derivePinHashBase64 P pin saltBase64 iterations =
     (if \<not> has_subtle P then Inl (Error ''WebCrypto is not available in this browser'')
      else (case fromBase64 saltBase64 of
              None \<Rightarrow> Inl InvalidCharacterError
            | Some saltBytes \<Rightarrow>
                Inr (toBase64 (pbkdf2 P (text_encode P pin) saltBytes iterations 256))))"

section \<open>db.js: the object stores\<close>

record profile =
  profileId :: string
  name :: string
  createdAt :: string
  updatedAt :: string
  pinSalt :: "string option"
  pinHash :: "string option"

record progress_row =
  pr_profileId :: string
  pr_lessonId :: string
  pr_completed :: bool
  pr_completedAt :: "string option"

text \<open>
  A number as the quiz code produces it: a finite integer, \<open>Infinity\<close> or \<open>NaN\<close>.
\<close>

datatype jsnum = Num int | Infinity | NaN

type_synonym answers = "(nat \<times> nat) list"

record quiz_data =
  qr_profileId :: string
  qr_quizId :: string
  qr_score :: nat
  qr_totalQuestions :: nat
  qr_answers :: answers
  qr_completedAt :: string
  qr_percentage :: "jsnum option"

text \<open>
  The three stores of \<open>getDb\<close>: \<open>profiles\<close> with key path \<open>profileId\<close>; \<open>progress\<close> with key
  path \<open>[profileId, lessonId]\<close>, held in key order as IndexedDB iterates it; \<open>quizResults\<close>
  with the auto-incremented key \<open>id\<close>, held in key order, and its key generator.
\<close>

record db =
  profiles :: "string \<Rightarrow> profile option"
  progress :: "progress_row list"
  quizResults :: "(nat \<times> quiz_data) list"
  quizKeyGen :: nat

definition empty_db :: db where
  "empty_db = \<lparr>profiles = Map.empty, progress = [], quizResults = [], quizKeyGen = 1\<rparr>"

definition progress_key :: "progress_row \<Rightarrow> string \<times> string" where
  "progress_key r = (pr_profileId r, pr_lessonId r)"

text \<open>\<open>put\<close> on each store, \<open>add\<close> on \<open>quizResults\<close>, \<open>delete\<close> by primary key.\<close>

definition put_profile :: "profile \<Rightarrow> db \<Rightarrow> db" where
  "put_profile p d = d\<lparr>profiles := (profiles d)(profileId p \<mapsto> p)\<rparr>"

definition delete_profile_key :: "string \<Rightarrow> db \<Rightarrow> db" where
  "delete_profile_key pid d = d\<lparr>profiles := (profiles d)(pid := None)\<rparr>"

text \<open>A row replaces the row under its key, or is inserted at its place in key order.\<close>

definition upsert :: "progress_row \<Rightarrow> progress_row list \<Rightarrow> progress_row list" where
  "upsert r rows =
     insort_key progress_key r (filter (\<lambda>x. progress_key x \<noteq> progress_key r) rows)"

definition put_progress :: "progress_row \<Rightarrow> db \<Rightarrow> db" where
  "put_progress r d = d\<lparr>progress := upsert r (progress d)\<rparr>"

definition delete_progress_key :: "string \<times> string \<Rightarrow> db \<Rightarrow> db" where
  "delete_progress_key k d = d\<lparr>progress := filter (\<lambda>x. progress_key x \<noteq> k) (progress d)\<rparr>"

definition add_quiz :: "quiz_data \<Rightarrow> db \<Rightarrow> nat \<times> db" where
  "add_quiz q d =
     (quizKeyGen d,
      d\<lparr>quizResults := quizResults d @ [(quizKeyGen d, q)], quizKeyGen := Suc (quizKeyGen d)\<rparr>)"

definition delete_quiz_key :: "nat \<Rightarrow> db \<Rightarrow> db" where
  "delete_quiz_key i d = d\<lparr>quizResults := filter (\<lambda>x. fst x \<noteq> i) (quizResults d)\<rparr>"

text \<open>\<open>getAllFromIndex(store, 'byProfileId', profileId)\<close>.\<close>

definition progress_byProfileId :: "string \<Rightarrow> db \<Rightarrow> progress_row list" where
  "progress_byProfileId pid d = filter (\<lambda>r. pr_profileId r = pid) (progress d)"

definition quiz_byProfileId :: "string \<Rightarrow> db \<Rightarrow> (nat \<times> quiz_data) list" where
  "quiz_byProfileId pid d = filter (\<lambda>r. qr_profileId (snd r) = pid) (quizResults d)"

subsection \<open>Transactions\<close>

text \<open>
  A read-write transaction works on a copy of the stores. \<open>fault = Some k\<close> means that the
  storage engine fails the request after \<open>k\<close> requests of the transaction have succeeded; the
  failed request rejects, the caller throws, and the transaction aborts: the stores are as
  before. \<open>fault = None\<close> means that no request fails.
\<close>

type_synonym tx = "db \<times> nat"

definition request :: "nat option \<Rightarrow> (db \<Rightarrow> 'a \<times> db) \<Rightarrow> tx \<Rightarrow> error + 'a \<times> tx" where
  "request fault f t =
     (if fault = Some (snd t) then Inl EngineError
      else (case f (fst t) of (x, d) \<Rightarrow> Inr (x, (d, Suc (snd t)))))"

definition transaction :: "(tx \<Rightarrow> error + 'a \<times> tx) \<Rightarrow> db \<Rightarrow> (error + 'a) \<times> db" where
  "transaction body d =
     (case body (d, 0) of
        Inl e \<Rightarrow> (Inl e, d)
      | Inr (x, t) \<Rightarrow> (Inr x, fst t))"

section \<open>profiles.js\<close>

definition getProfile :: "string \<Rightarrow> db \<Rightarrow> profile option" where
  "getProfile pid d = profiles d pid"

definition createProfile ::
  "platform \<Rightarrow> env \<Rightarrow> string \<Rightarrow> string option \<Rightarrow> db \<Rightarrow> (error + profile) \<times> db" where
  "createProfile P E nm pin d =
     (if nm = [] \<or> js_trim nm = [] then (Inl (Error ''Profile name is required''), d)
      else
        (case (if truthy pin
               then (let salt = generateSaltBase64 E 16
                     in (case derivePinHashBase64 P (case pin of Some s \<Rightarrow> s | None \<Rightarrow> []) salt 100000 of
                           Inl e \<Rightarrow> Inl e
                         | Inr hash \<Rightarrow> Inr (Some salt, Some hash)))
               else Inr (None, None)) of
           Inl e \<Rightarrow> (Inl e, d)
         | Inr (salt, hash) \<Rightarrow>
             (let p = \<lparr>profileId = new_id E, name = js_trim nm, createdAt = now E 0,
                       updatedAt = now E 0, pinSalt = salt, pinHash = hash\<rparr>
              in (Inr p, put_profile p d))))"

definition renameProfile :: "env \<Rightarrow> string \<Rightarrow> string \<Rightarrow> db \<Rightarrow> (error + profile) \<times> db" where
  "renameProfile E pid nm d =
     (if nm = [] \<or> js_trim nm = [] then (Inl (Error ''Profile name is required''), d)
      else (case profiles d pid of
              None \<Rightarrow> (Inl (Error ''Profile not found''), d)
            | Some p \<Rightarrow>
                (let p1 = p\<lparr>name := js_trim nm, updatedAt := now E 0\<rparr>
                 in (Inr p1, put_profile p1 d))))"

definition setProfilePin ::
  "platform \<Rightarrow> env \<Rightarrow> string \<Rightarrow> string \<Rightarrow> db \<Rightarrow> (error + profile) \<times> db" where
  "setProfilePin P E pid pin d =
     (if pin = [] \<or> length pin < 4 then (Inl (Error ''PIN must be at least 4 characters''), d)
      else (case profiles d pid of
              None \<Rightarrow> (Inl (Error ''Profile not found''), d)
            | Some p \<Rightarrow>
                (let salt = generateSaltBase64 E 16
                 in (case derivePinHashBase64 P pin salt 100000 of
                       Inl e \<Rightarrow> (Inl e, d)
                     | Inr hash \<Rightarrow>
                         (let p1 = p\<lparr>pinSalt := Some salt, pinHash := Some hash,
                                     updatedAt := now E 0\<rparr>
                          in (Inr p1, put_profile p1 d))))))"

definition clearProfilePin :: "env \<Rightarrow> string \<Rightarrow> db \<Rightarrow> (error + profile) \<times> db" where
  "clearProfilePin E pid d =
     (case profiles d pid of
        None \<Rightarrow> (Inl (Error ''Profile not found''), d)
      | Some p \<Rightarrow>
          (let p1 = p\<lparr>pinSalt := None, pinHash := None, updatedAt := now E 0\<rparr>
           in (Inr p1, put_profile p1 d)))"

definition verifyProfilePin :: "platform \<Rightarrow> string \<Rightarrow> string \<Rightarrow> db \<Rightarrow> error + bool" where
  "verifyProfilePin P pid pin d =
     (case getProfile pid d of
        None \<Rightarrow> Inr False
      | Some p \<Rightarrow>
          if \<not> truthy (pinHash p) \<or> \<not> truthy (pinSalt p) then Inr True
          else (case derivePinHashBase64 P pin (case pinSalt p of Some s \<Rightarrow> s | None \<Rightarrow> []) 100000 of
                  Inl e \<Rightarrow> Inl e
                | Inr hash \<Rightarrow> Inr (Some hash = pinHash p)))"

text \<open>
  The cursor loops of \<open>deleteProfile\<close>: the rows the index holds for the profile when the
  cursor opens, each deleted by \<open>cursor.delete()\<close> and followed by \<open>cursor.continue()\<close>.
\<close>

fun delete_progress_cursor :: "nat option \<Rightarrow> progress_row list \<Rightarrow> tx \<Rightarrow> error + unit \<times> tx" where
  "delete_progress_cursor fault [] t = Inr ((), t)"
| "delete_progress_cursor fault (r # rs) t =
     (case request fault (\<lambda>d. ((), delete_progress_key (progress_key r) d)) t of
        Inl e \<Rightarrow> Inl e
      | Inr (u, t1) \<Rightarrow>
          (case request fault (\<lambda>d. ((), d)) t1 of
             Inl e \<Rightarrow> Inl e
           | Inr (u, t2) \<Rightarrow> delete_progress_cursor fault rs t2))"

fun delete_quiz_cursor :: "nat option \<Rightarrow> (nat \<times> quiz_data) list \<Rightarrow> tx \<Rightarrow> error + unit \<times> tx" where
  "delete_quiz_cursor fault [] t = Inr ((), t)"
| "delete_quiz_cursor fault (r # rs) t =
     (case request fault (\<lambda>d. ((), delete_quiz_key (fst r) d)) t of
        Inl e \<Rightarrow> Inl e
      | Inr (u, t1) \<Rightarrow>
          (case request fault (\<lambda>d. ((), d)) t1 of
             Inl e \<Rightarrow> Inl e
           | Inr (u, t2) \<Rightarrow> delete_quiz_cursor fault rs t2))"

definition deleteProfile_body :: "nat option \<Rightarrow> string \<Rightarrow> tx \<Rightarrow> error + unit \<times> tx" where
  "deleteProfile_body fault pid t0 =
     (case request fault (\<lambda>d. ((), delete_profile_key pid d)) t0 of
        Inl e \<Rightarrow> Inl e
      | Inr (u, t1) \<Rightarrow>
     (case request fault (\<lambda>d. (progress_byProfileId pid d, d)) t1 of
        Inl e \<Rightarrow> Inl e
      | Inr (rows, t2) \<Rightarrow>
     (case delete_progress_cursor fault rows t2 of
        Inl e \<Rightarrow> Inl e
      | Inr (u, t3) \<Rightarrow>
     (case request fault (\<lambda>d. (quiz_byProfileId pid d, d)) t3 of
        Inl e \<Rightarrow> Inl e
      | Inr (qrows, t4) \<Rightarrow>
     (case delete_quiz_cursor fault qrows t4 of
        Inl e \<Rightarrow> Inl e
      | Inr (u, t5) \<Rightarrow> request fault (\<lambda>d. ((), d)) t5)))))"

definition deleteProfile :: "nat option \<Rightarrow> string \<Rightarrow> db \<Rightarrow> (error + unit) \<times> db" where
  "deleteProfile fault pid d = transaction (deleteProfile_body fault pid) d"

section \<open>progress.js\<close>

definition markLessonComplete :: "env \<Rightarrow> string \<Rightarrow> string \<Rightarrow> db \<Rightarrow> db" where
  "markLessonComplete E pid lid d =
     put_progress \<lparr>pr_profileId = pid, pr_lessonId = lid, pr_completed = True,
                   pr_completedAt = Some (now E 0)\<rparr> d"

definition markLessonIncomplete :: "string \<Rightarrow> string \<Rightarrow> db \<Rightarrow> db" where
  "markLessonIncomplete pid lid d =
     put_progress \<lparr>pr_profileId = pid, pr_lessonId = lid, pr_completed = False,
                   pr_completedAt = None\<rparr> d"

section \<open>quizResults.js\<close>

subsection \<open>Double precision arithmetic\<close>

text \<open>
  \<open>score / totalQuestions\<close> and the product with 100 are IEEE 754 binary64 operations: the
  exact result rounded to the nearest number with a 53 bit significand, ties to the even
  significand. A positive double is a pair \<open>(m, e)\<close> standing for \<open>m * 2 ^ e\<close>. All the
  values here lie far inside the range of normal numbers, so the exponent is not bounded.
\<close>

text \<open>The integer nearest to \<open>n / d\<close> for \<open>d > 0\<close>, ties to even.\<close>

definition rne :: "int \<Rightarrow> int \<Rightarrow> int" where
  "rne n d =
     (let q = n div d; r = n mod d
      in if 2 * r < d then q else if d < 2 * r then q + 1 else if even q then q else q + 1)"

text \<open>The \<open>k\<close> with \<open>2 ^ k \<le> n / d < 2 ^ (k + 1)\<close>, for positive \<open>n\<close> and \<open>d\<close>.\<close>

definition ilog2 :: "int \<Rightarrow> int \<Rightarrow> int" where
  "ilog2 n d =
     (if d * 2 ^ nat (bitlen n) \<le> n * 2 ^ nat (bitlen d) then bitlen n - bitlen d
      else bitlen n - bitlen d - 1)"

text \<open>The quotient of two positive integers that are doubles themselves.\<close>

definition fdiv :: "int \<Rightarrow> int \<Rightarrow> int \<times> int" where
  "fdiv n d =
     (let e = ilog2 n d - 52
      in (if 0 \<le> e then rne n (d * 2 ^ nat e) else rne (n * 2 ^ nat (- e)) d, e))"

text \<open>A positive \<open>n * 2 ^ e\<close> rounded to 53 bits, and the product of a double with an integer.\<close>

definition round53 :: "int \<times> int \<Rightarrow> int \<times> int" where
  "round53 x =
     (case x of (n, e) \<Rightarrow>
        let sh = bitlen n - 53
        in if sh \<le> 0 then (n, e) else (rne n (2 ^ nat sh), e + sh))"

definition fmul :: "int \<times> int \<Rightarrow> int \<Rightarrow> int \<times> int" where
  "fmul x c = round53 (fst x * c, snd x)"

text \<open>\<open>Math.round\<close> of a positive double: the floor of the value plus one half.\<close>

definition math_round :: "int \<times> int \<Rightarrow> int" where
  "math_round x =
     (case x of (m, e) \<Rightarrow>
        if 0 \<le> e then m * 2 ^ nat e
        else (2 * m + 2 ^ nat (- e)) div 2 ^ nat (1 - e))"

text \<open>\<open>Math.round((score / totalQuestions) * 100)\<close> on non-negative integers.\<close>

definition js_percentage :: "nat \<Rightarrow> nat \<Rightarrow> jsnum" where
  "js_percentage score totalQuestions =
     (if totalQuestions = 0 then (if score = 0 then NaN else Infinity)
      else if score = 0 then Num 0
      else Num (math_round (fmul (fdiv (int score) (int totalQuestions)) 100)))"

text \<open>\<open>a > b\<close> on numbers.\<close>

fun js_gt :: "jsnum \<Rightarrow> jsnum \<Rightarrow> bool" where
  "js_gt (Num a) (Num b) = (b < a)"
| "js_gt Infinity (Num b) = True"
| "js_gt a b = False"

subsection \<open>The module\<close>

definition submitQuizResult ::
  "env \<Rightarrow> string \<Rightarrow> string \<Rightarrow> nat \<Rightarrow> nat \<Rightarrow> answers \<Rightarrow> db \<Rightarrow> (nat \<times> string \<times> jsnum) \<times> db" where
  "submitQuizResult E pid quizId score totalQuestions ans d =
     (let completedAt = now E 0;
          percentage = js_percentage score totalQuestions
      in (case add_quiz \<lparr>qr_profileId = pid, qr_quizId = quizId, qr_score = score,
                         qr_totalQuestions = totalQuestions, qr_answers = ans,
                         qr_completedAt = completedAt, qr_percentage = Some percentage\<rparr> d of
            (i, d1) \<Rightarrow> ((i, completedAt, percentage), d1)))"

record best =
  b_score :: nat
  b_totalQuestions :: nat
  b_percentage :: jsnum
  b_completedAt :: string

text \<open>
  \<open>bestScores\<close> is an object literal \<open>{}\<close>: reading a property that the object does not own
  finds the one \<open>Object.prototype\<close> has under that name, if any.
\<close>

definition object_prototype_names :: "string list" where
  "object_prototype_names =
     [''constructor'', ''__defineGetter__'', ''__defineSetter__'', ''hasOwnProperty'',
      ''__lookupGetter__'', ''__lookupSetter__'', ''isPrototypeOf'', ''propertyIsEnumerable'',
      ''toString'', ''valueOf'', ''__proto__'', ''toLocaleString'']"

datatype 'a property = Undefined | Own 'a | Inherited

definition get_property :: "(string \<Rightarrow> 'a option) \<Rightarrow> string \<Rightarrow> 'a property" where
  "get_property obj k =
     (case obj k of
        Some v \<Rightarrow> Own v
      | None \<Rightarrow> if List.member object_prototype_names k then Inherited else Undefined)"

definition row_percentage :: "quiz_data \<Rightarrow> jsnum" where
  "row_percentage r =
     (case qr_percentage r of
        Some p \<Rightarrow> p
      | None \<Rightarrow> js_percentage (qr_score r) (qr_totalQuestions r))"

text \<open>
  One turn of the loop of \<open>getBestQuizScores\<close>. An inherited \<open>prev\<close> is truthy and its
  \<open>percentage\<close> is \<open>undefined\<close>, so the comparison is false.
\<close>

definition best_step :: "quiz_data \<Rightarrow> (string \<Rightarrow> best option) \<Rightarrow> (string \<Rightarrow> best option)" where
  "best_step r bestScores =
     (let percentage = row_percentage r;
          prev = get_property bestScores (qr_quizId r)
      in if (case prev of
               Undefined \<Rightarrow> True
             | Own b \<Rightarrow> js_gt percentage (b_percentage b)
             | Inherited \<Rightarrow> False)
         then bestScores(qr_quizId r \<mapsto>
                \<lparr>b_score = qr_score r, b_totalQuestions = qr_totalQuestions r,
                 b_percentage = percentage, b_completedAt = qr_completedAt r\<rparr>)
         else bestScores)"

definition getBestQuizScores :: "string \<Rightarrow> db \<Rightarrow> (string \<Rightarrow> best option)" where
  "getBestQuizScores pid d = fold best_step (map snd (quiz_byProfileId pid d)) Map.empty"

section \<open>exportImport.js\<close>

record snap_profile =
  sp_profileId :: string
  sp_name :: string
  sp_createdAt :: string
  sp_updatedAt :: string

record snap_progress =
  sg_lessonId :: string
  sg_completed :: bool
  sg_completedAt :: "string option"

record snap_quiz =
  sq_quizId :: string
  sq_score :: nat
  sq_totalQuestions :: nat
  sq_answers :: answers
  sq_completedAt :: string

record snapshot =
  version :: int
  exportedAt :: string
  sn_profile :: "snap_profile option"
  sn_progress :: "snap_progress list"
  sn_quizResults :: "snap_quiz list"

definition exportProfileData :: "env \<Rightarrow> string \<Rightarrow> db \<Rightarrow> error + snapshot" where
  "exportProfileData E pid d =
     (case profiles d pid of
        None \<Rightarrow> Inl (Error ''Profile not found'')
      | Some p \<Rightarrow>
          Inr \<lparr>version = 1, exportedAt = now E 0,
               sn_profile = Some \<lparr>sp_profileId = profileId p, sp_name = name p,
                                  sp_createdAt = createdAt p, sp_updatedAt = updatedAt p\<rparr>,
               sn_progress =
                 map (\<lambda>r. \<lparr>sg_lessonId = pr_lessonId r, sg_completed = pr_completed r,
                            sg_completedAt = or_null (pr_completedAt r)\<rparr>)
                   (progress_byProfileId pid d),
               sn_quizResults =
                 map (\<lambda>r. \<lparr>sq_quizId = qr_quizId (snd r), sq_score = qr_score (snd r),
                            sq_totalQuestions = qr_totalQuestions (snd r),
                            sq_answers = qr_answers (snd r),
                            sq_completedAt = qr_completedAt (snd r)\<rparr>)
                   (quiz_byProfileId pid d)\<rparr>)"

text \<open>The two loops of the write batch; an entry with a falsy id is skipped.\<close>

fun import_progress ::
  "nat option \<Rightarrow> string \<Rightarrow> snap_progress list \<Rightarrow> tx \<Rightarrow> error + unit \<times> tx" where
  "import_progress fault pid [] t = Inr ((), t)"
| "import_progress fault pid (p # ps) t =
     (if sg_lessonId p = [] then import_progress fault pid ps t
      else (case request fault
                   (\<lambda>d. ((), put_progress
                              \<lparr>pr_profileId = pid, pr_lessonId = sg_lessonId p,
                               pr_completed = sg_completed p,
                               pr_completedAt = or_null (sg_completedAt p)\<rparr> d)) t of
              Inl e \<Rightarrow> Inl e
            | Inr (u, t1) \<Rightarrow> import_progress fault pid ps t1))"

fun import_quiz ::
  "env \<Rightarrow> nat option \<Rightarrow> string \<Rightarrow> nat \<Rightarrow> snap_quiz list \<Rightarrow> tx \<Rightarrow> error + unit \<times> tx" where
  "import_quiz E fault pid i [] t = Inr ((), t)"
| "import_quiz E fault pid i (q # qs) t =
     (if sq_quizId q = [] then import_quiz E fault pid (Suc i) qs t
      else (case request fault
                   (add_quiz
                      \<lparr>qr_profileId = pid, qr_quizId = sq_quizId q, qr_score = sq_score q,
                       qr_totalQuestions = sq_totalQuestions q, qr_answers = sq_answers q,
                       qr_completedAt =
                         (if sq_completedAt q \<noteq> [] then sq_completedAt q else now E (2 + i)),
                       qr_percentage =
                         (if sq_totalQuestions q \<noteq> 0
                          then Some (js_percentage (sq_score q) (sq_totalQuestions q))
                          else None)\<rparr>) t of
              Inl e \<Rightarrow> Inl e
            | Inr (u, t1) \<Rightarrow> import_quiz E fault pid (Suc i) qs t1))"

definition import_body ::
  "env \<Rightarrow> nat option \<Rightarrow> string \<Rightarrow> string \<Rightarrow> snapshot \<Rightarrow> tx \<Rightarrow> error + string \<times> tx" where
  "import_body E fault pid nm s t0 =
     (case request fault (\<lambda>d. (profiles d pid, d)) t0 of
        Inl e \<Rightarrow> Inl e
      | Inr (po, t1) \<Rightarrow>
     (case (case po of
              None \<Rightarrow> Inr ((), t1)
            | Some p \<Rightarrow>
                request fault (\<lambda>d. ((), put_profile (p\<lparr>name := nm, updatedAt := now E 1\<rparr>) d)) t1) of
        Inl e \<Rightarrow> Inl e
      | Inr (u, t2) \<Rightarrow>
     (case import_progress fault pid (sn_progress s) t2 of
        Inl e \<Rightarrow> Inl e
      | Inr (u, t3) \<Rightarrow>
     (case import_quiz E fault pid 0 (sn_quizResults s) t3 of
        Inl e \<Rightarrow> Inl e
      | Inr (u, t4) \<Rightarrow>
     (case request fault (\<lambda>d. ((), d)) t4 of
        Inl e \<Rightarrow> Inl e
      | Inr (u, t5) \<Rightarrow> Inr (pid, t5))))))"

text \<open>
  \<open>data = None\<close> stands for a value that is falsy or not an object; a snapshot without
  \<open>profile\<close> or with a falsy \<open>profile.name\<close> has no name.
\<close>

definition importProfileData ::
  "platform \<Rightarrow> env \<Rightarrow> nat option \<Rightarrow> snapshot option \<Rightarrow> string option \<Rightarrow> db
     \<Rightarrow> (error + string) \<times> db" where
  "importProfileData P E fault data overwriteProfileId d =
     (case data of
        None \<Rightarrow> (Inl (Error ''Invalid import file''), d)
      | Some s \<Rightarrow>
          if version s \<noteq> 1 then (Inl (Error ''Unsupported import version''), d)
          else
            (let nm = (case sn_profile s of None \<Rightarrow> [] | Some sp \<Rightarrow> sp_name sp)
             in if nm = [] then (Inl (Error ''Import is missing profile name''), d)
                else
                  (case (if truthy overwriteProfileId
                         then (let pid = (case overwriteProfileId of Some x \<Rightarrow> x | None \<Rightarrow> [])
                               in (case getProfile pid d of
                                     None \<Rightarrow> (Inl (Error ''Target profile not found''), d)
                                   | Some existing \<Rightarrow> (Inr pid, d)))
                         else (case createProfile P E nm None d of
                                 (Inl e, d1) \<Rightarrow> (Inl e, d1)
                               | (Inr created, d1) \<Rightarrow> (Inr (profileId created), d1))) of
                     (Inl e, d1) \<Rightarrow> (Inl e, d1)
                   | (Inr pid, d1) \<Rightarrow> transaction (import_body E fault pid nm s) d1)))"

section \<open>Sample platform and environment\<close>

text \<open>
  A platform and an environment to run the definitions on. The derivation of
  \<open>sample_platform\<close> stands in for PBKDF2: it returns 32 bytes taken from the key and the salt.
\<close>

definition sample_platform :: platform where
  "sample_platform =
     \<lparr>has_subtle = True,
      text_encode = map (\<lambda>c. of_nat (of_char c)),
      pbkdf2 = (\<lambda>key salt iterations bits. take 32 (key @ salt @ replicate 32 0))\<rparr>"

definition sample_env :: "string \<Rightarrow> env" where
  "sample_env i =
     \<lparr>now = (\<lambda>n. ''2024-01-01T00:00:00.000Z''),
      new_id = i,
      random_bytes = (\<lambda>n. replicate n 7)\<rparr>"

section \<open>Repeated writes of one progress key\<close>

datatype mark = Complete env | Incomplete

definition apply_mark :: "string \<Rightarrow> string \<Rightarrow> mark \<Rightarrow> db \<Rightarrow> db" where
  "apply_mark pid lid m d =
     (case m of
        Complete E \<Rightarrow> markLessonComplete E pid lid d
      | Incomplete \<Rightarrow> markLessonIncomplete pid lid d)"

definition mark_row :: "string \<Rightarrow> string \<Rightarrow> mark \<Rightarrow> progress_row" where
  "mark_row pid lid m =
     (case m of
        Complete E \<Rightarrow> \<lparr>pr_profileId = pid, pr_lessonId = lid, pr_completed = True,
                       pr_completedAt = Some (now E 0)\<rparr>
      | Incomplete \<Rightarrow> \<lparr>pr_profileId = pid, pr_lessonId = lid, pr_completed = False,
                       pr_completedAt = None\<rparr>)"

text \<open>A store with one profile, one progress row and one quiz row.\<close>

definition sample_store :: db where
  "sample_store =
     snd (submitQuizResult (sample_env ''x'') ''id1'' ''q1'' 9 10 []
       (markLessonComplete (sample_env ''x'') ''id1'' ''arrays''
         (snd (createProfile sample_platform (sample_env ''id1'') ''Ava'' None empty_db))))"

section \<open>Runs of calls\<close>

text \<open>The calls that write to the store, and the store after a sequence of them.\<close>

datatype call =
    CreateProfile string "string option"
  | RenameProfile string string
  | SetProfilePin string string
  | ClearProfilePin string
  | DeleteProfile "nat option" string
  | ImportProfileData "nat option" "snapshot option" "string option"
  | MarkLessonComplete string string
  | MarkLessonIncomplete string string
  | SubmitQuizResult string string nat nat answers

fun exec :: "platform \<Rightarrow> env \<Rightarrow> call \<Rightarrow> db \<Rightarrow> db" where
  "exec P E (CreateProfile nm pin) d = snd (createProfile P E nm pin d)"
| "exec P E (RenameProfile pid nm) d = snd (renameProfile E pid nm d)"
| "exec P E (SetProfilePin pid pin) d = snd (setProfilePin P E pid pin d)"
| "exec P E (ClearProfilePin pid) d = snd (clearProfilePin E pid d)"
| "exec P E (DeleteProfile fault pid) d = snd (deleteProfile fault pid d)"
| "exec P E (ImportProfileData fault data overwriteProfileId) d =
     snd (importProfileData P E fault data overwriteProfileId d)"
| "exec P E (MarkLessonComplete pid lid) d = markLessonComplete E pid lid d"
| "exec P E (MarkLessonIncomplete pid lid) d = markLessonIncomplete pid lid d"
| "exec P E (SubmitQuizResult pid quizId score totalQuestions ans) d =
     snd (submitQuizResult E pid quizId score totalQuestions ans d)"

fun run :: "platform \<Rightarrow> (env \<times> call) list \<Rightarrow> db \<Rightarrow> db" where
  "run P [] d = d"
| "run P (c # cs) d = run P cs (exec P (fst c) (snd c) d)"

text \<open>Every stored profile has \<open>pinSalt\<close> and \<open>pinHash\<close> both null or both set.\<close>

definition credentials_paired :: "db \<Rightarrow> bool" where
  "credentials_paired d =
     (\<forall>pid p. profiles d pid = Some p \<longrightarrow> (pinSalt p = None) = (pinHash p = None))"

text \<open>A snapshot with one progress entry, as \<open>exportProfileData\<close> writes it.\<close>

definition sample_snapshot :: snapshot where
  "sample_snapshot =
     \<lparr>version = 1, exportedAt = ''2024-01-02T00:00:00.000Z'',
      sn_profile = Some \<lparr>sp_profileId = ''id1'', sp_name = ''Ava'',
                         sp_createdAt = ''2024-01-01T00:00:00.000Z'',
                         sp_updatedAt = ''2024-01-01T00:00:00.000Z''\<rparr>,
      sn_progress = [\<lparr>sg_lessonId = ''arrays'', sg_completed = True,
                      sg_completedAt = Some ''2024-01-01T00:00:00.000Z''\<rparr>],
      sn_quizResults = []\<rparr>"

text \<open>What \<open>getBestQuizScores\<close> reports of a row.\<close>

definition best_of :: "quiz_data \<Rightarrow> best" where
  "best_of r =
     \<lparr>b_score = qr_score r, b_totalQuestions = qr_totalQuestions r,
      b_percentage = row_percentage r, b_completedAt = qr_completedAt r\<rparr>"

text \<open>
  A store with one profile and four quiz rows: 60, 90 and 75 percent on \<open>q1\<close>, and one
  attempt on the quiz called \<open>constructor\<close>.
\<close>

definition quiz_store :: db where
  "quiz_store =
     snd (submitQuizResult (sample_env ''x'') ''id1'' ''constructor'' 7 10 []
       (snd (submitQuizResult (sample_env ''x'') ''id1'' ''q1'' 3 4 []
         (snd (submitQuizResult (sample_env ''x'') ''id1'' ''q1'' 9 10 []
           (snd (submitQuizResult (sample_env ''x'') ''id1'' ''q1'' 6 10 []
             (snd (createProfile sample_platform (sample_env ''id1'') ''Ava'' None
                     empty_db)))))))))"

text \<open>The progress store holds one row per key, in key order.\<close>

definition progress_ordered :: "db \<Rightarrow> bool" where
  "progress_ordered d = sorted_wrt (<) (map progress_key (progress d))"

text \<open>What a progress row says about its lesson, as every read of the store returns it.\<close>

definition progress_view :: "progress_row \<Rightarrow> string \<times> bool \<times> string option" where
  "progress_view r = (pr_lessonId r, pr_completed r, or_null (pr_completedAt r))"

text \<open>A store whose profile has completed the lesson with the empty id.\<close>

definition blank_lesson_store :: db where
  "blank_lesson_store =
     markLessonComplete (sample_env ''x'') ''id1'' ''''
       (snd (createProfile sample_platform (sample_env ''id1'') ''Ava'' None empty_db))"

text \<open>The real number a pair \<open>(m, e)\<close> stands for.\<close>

definition double_value :: "int \<times> int \<Rightarrow> real" where
  "double_value x = real_of_int (fst x) * 2 powi (snd x)"

section \<open>Properties\<close>

subsection \<open>Base64 decodes what it encodes\<close>

lemma b64_index_alphabet: "map b64_index b64_alphabet = map Some [0..<64]"
  by code_simp

lemma b64_ws_alphabet: "list_all (\<lambda>c. \<not> is_ascii_whitespace c \<and> c \<noteq> CHR ''='') b64_alphabet"
  by code_simp

lemma length_alphabet: "length b64_alphabet = 64"
  by (simp add: b64_alphabet_def)



lemma b64_lin1: "a < 4 \<Longrightarrow> b < 16 \<Longrightarrow> a * 16 + b < (64::nat)" by linarith
lemma b64_lin2: "a < 16 \<Longrightarrow> b < 4 \<Longrightarrow> a * 4 + b < (64::nat)" by linarith
lemma b64_d16: "y < 256 \<Longrightarrow> y div 16 < (16::nat)" by (simp add: less_mult_imp_div_less)
lemma b64_d64: "z < 256 \<Longrightarrow> z div 64 < (4::nat)" by (simp add: less_mult_imp_div_less)
lemma b64_d4: "x < 256 \<Longrightarrow> x div 4 < (64::nat)" by (simp add: less_mult_imp_div_less)
lemma b64_g1: "x div 4 * 4 + x mod 4 * 16 div 16 = (x::nat)" by simp
lemma b64_g2: "y < 256 \<Longrightarrow> x div 4 * 4 + (x mod 4 * 16 + y div 16) div 16 = (x::nat)"
  using b64_d16 [of y] by simp
lemma b64_g3: "y < 256 \<Longrightarrow> (x mod 4 * 16 + y div 16) mod 16 * 16 + y mod 16 * 4 div 4 = (y::nat)"
  using b64_d16 [of y] by simp
lemma b64_g4: "y < 256 \<Longrightarrow> z < 256 \<Longrightarrow> (x mod 4 * 16 + y div 16) mod 16 * 16 + (y mod 16 * 4 + z div 64) div 4 = (y::nat)"
  using b64_d16 [of y] b64_d64 [of z] by simp
lemma b64_g5: "z < 256 \<Longrightarrow> (y mod 16 * 4 + z div 64) mod 4 * 64 + z mod 64 = (z::nat)" 
  using b64_d64 [of z] by simp
lemma b64_s2: "y < 256 \<Longrightarrow> x mod 4 * 16 + y div 16 < (64::nat)" 
  using b64_d16 [of y] by (intro b64_lin1) simp_all
lemma b64_s3: "z < 256 \<Longrightarrow> y mod 16 * 4 + z div 64 < (64::nat)"
  using b64_d64 [of z] by (intro b64_lin2) simp_all
lemma b64_s4: "x mod 4 * 16 < (64::nat)" using b64_lin1 [of "x mod 4" 0] by simp
lemma b64_s5: "x mod 16 * 4 < (64::nat)" using b64_lin2 [of "x mod 16" 0] by simp

lemma b64_m3: "n mod 3 = 0 \<or> n mod 3 = 1 \<or> n mod 3 = (2::nat)"
proof -
  have "m = 0 \<or> m = 1 \<or> m = 2" if "m < 3" for m :: nat using that by linarith
  then show ?thesis by simp
qed
lemma b64_l1g: "r = 0 \<or> r = 1 \<or> r = (2::nat) \<Longrightarrow> (4 * q + (if r = 0 then 0 else r + 1) + (3 - r) mod 3) mod 4 = (0::nat)"
  by (elim disjE) (simp_all add: mod_Suc)
lemma b64_l2g: "r = 0 \<or> r = 1 \<or> r = (2::nat) \<Longrightarrow> (4 * q + (if r = 0 then 0 else r + 1)) mod 4 \<noteq> (1::nat)"
  by (elim disjE) (simp_all add: mod_Suc)
lemma b64_l1: "(4 * (n div 3) + (if n mod 3 = 0 then 0 else n mod 3 + 1) + (3 - n mod 3) mod 3) mod 4 = (0::nat)" 
  using b64_m3 [of n] by (rule b64_l1g)
lemma b64_l2: "(4 * (n div 3) + (if n mod 3 = 0 then 0 else n mod 3 + 1)) mod 4 \<noteq> (1::nat)"
  using b64_m3 [of n] by (rule b64_l2g)

lemma b64_index_char: "b64_index (b64_char n) = Some (n mod 64)"
proof -
  have "map b64_index b64_alphabet ! (n mod 64) = map Some [0..<64] ! (n mod 64)"
    by (simp only: b64_index_alphabet)
  then show ?thesis
    by (simp add: b64_char_def length_alphabet)
qed

lemma b64_char_plain: "\<not> is_ascii_whitespace (b64_char n)" "b64_char n \<noteq> CHR ''=''"
  using b64_ws_alphabet
  by (simp_all add: list_all_length b64_char_def length_alphabet)

lemma b64_values_small: "v \<in> set (b64_values s) \<Longrightarrow> v < 64"
proof (induction s arbitrary: v rule: b64_values.induct)
  case 1
  then show ?case by simp
next
  case (2 a)
  then show ?case by (auto simp: Let_def b64_d4 b64_s4)
next
  case (3 a b)
  then show ?case by (auto simp: Let_def b64_d4 b64_s2 b64_s5)
next
  case (4 a b c rest)
  have "of_char c mod 64 < (64::nat)" by simp
  with 4 show ?case by (auto simp: Let_def b64_d4 b64_s2 b64_s3)
qed

lemma b64_groups_values: "b64_groups (b64_values s) = s"
proof (induction s rule: b64_values.induct)
  case 1
  then show ?case by simp
next
  case (2 a)
  show ?case by (simp add: Let_def)
next
  case (3 a b)
  show ?case by (simp add: Let_def b64_d16)
next
  case (4 a b c rest)
  then show ?case by (simp add: Let_def b64_d16 b64_d64)
qed

lemma length_b64_values:
  "length (b64_values s)
   = 4 * (length s div 3) + (if length s mod 3 = 0 then 0 else length s mod 3 + 1)"
  by (induction s rule: b64_values.induct) (simp_all add: Let_def)

lemma strip_padding_encoded:
  assumes "\<forall>c\<in>set cs. c \<noteq> CHR ''=''" and "k < 3" and "k \<noteq> 0 \<longrightarrow> cs \<noteq> []"
    and "(length cs + k) mod 4 = 0"
  shows "strip_padding (cs @ replicate k (CHR ''='')) = cs"
proof -
  have "k = 0 \<or> k = 1 \<or> k = 2" using assms(2) by linarith
  then show ?thesis
  proof (elim disjE)
    assume "k = 0"
    with assms(1) show ?thesis by (cases "cs = []") (auto simp: strip_padding_def)
  next
    assume "k = 1"
    with assms show ?thesis by (auto simp: strip_padding_def butlast_append)
  next
    assume k: "k = 2"
    then have r: "replicate k (CHR ''='') = [CHR ''='', CHR ''='']" by (simp add: numeral_2_eq_2)
    have "(length cs + 2) mod 4 = 0" using assms(4) k by simp
    with assms(1,3) k show ?thesis unfolding r by (auto simp: strip_padding_def butlast_append)
  qed
qed

lemma those_map_Some: "those (map Some xs) = Some xs"
  by (induction xs) simp_all

lemma atob_btoa: "atob (btoa s) = Some s"
proof -
  define vs where "vs = b64_values s"
  define cs where "cs = map b64_char vs"
  define k where "k = (3 - length s mod 3) mod 3"
  have plain: "\<forall>c\<in>set cs. c \<noteq> CHR ''=''" "\<forall>c\<in>set cs. \<not> is_ascii_whitespace c"
    by (auto simp: cs_def b64_char_plain)
  have eqws: "\<not> is_ascii_whitespace (CHR ''='')" by (simp add: is_ascii_whitespace_def)
  have f: "filter (\<lambda>c. \<not> is_ascii_whitespace c) (cs @ replicate k (CHR ''=''))
           = cs @ replicate k (CHR ''='')"
    using plain(2) eqws by (auto simp: filter_id_conv)
  have len: "length cs
             = 4 * (length s div 3) + (if length s mod 3 = 0 then 0 else length s mod 3 + 1)"
    by (simp add: cs_def vs_def length_b64_values)
  have k3: "k < 3" by (simp add: k_def)
  have kne: "k \<noteq> 0 \<longrightarrow> cs \<noteq> []"
  proof
    assume "k \<noteq> 0"
    then have "length s mod 3 \<noteq> 0" by (cases "length s mod 3 = 0") (simp_all add: k_def)
    with len have "0 < length cs" by simp
    then show "cs \<noteq> []" by auto
  qed
  have m: "(length cs + k) mod 4 = 0"
    unfolding len k_def by (rule b64_l1)
  have m1: "length cs mod 4 \<noteq> 1"
    unfolding len by (rule b64_l2)
  have sp: "strip_padding (cs @ replicate k (CHR ''='')) = cs"
    using plain(1) k3 kne m by (rule strip_padding_encoded)
  have "map b64_index cs = map Some vs"
    by (auto simp: cs_def vs_def b64_index_char dest: b64_values_small)
  then have th: "those (map b64_index cs) = Some vs"
    by (simp add: those_map_Some)
  have b: "btoa s = cs @ replicate k (CHR ''='')"
    by (simp add: btoa_def cs_def vs_def k_def)
  show ?thesis
    unfolding atob_def b f sp
    using m1 by (simp add: th vs_def b64_groups_values)
qed

lemma fromBase64_toBase64: "fromBase64 (toBase64 bytes) = Some bytes"
proof -
  have "unat b mod 256 = unat b" for b :: byte
    using unsigned_less [of b, where ?'a = nat] by simp
  then have "map (\<lambda>c. (of_nat (of_char c) :: byte)) (map (\<lambda>b. char_of (unat b)) bytes) = bytes"
    by (induction bytes) simp_all
  then show ?thesis by (simp add: fromBase64_def toBase64_def atob_btoa)
qed

lemma toBase64_inject: "toBase64 a = toBase64 b \<longleftrightarrow> a = b"
  by (metis fromBase64_toBase64 option.inject)

lemma toBase64_eq_Nil: "toBase64 bytes = [] \<longleftrightarrow> bytes = []"
  using toBase64_inject [of bytes "[]"] by (simp add: toBase64_def btoa_def)

subsection \<open>Progress upserts\<close>

lemma filter_insort_key_single:
  "P x \<Longrightarrow> filter P xs = [] \<Longrightarrow> filter P (insort_key f x xs) = [x]"
  by (induction xs) (auto split: if_splits)

lemma length_filter_insort_key:
  "length (filter P (insort_key f x xs)) = (if P x then 1 else 0) + length (filter P xs)"
  by (induction xs) auto

lemma put_progress_same_key:
  "filter (\<lambda>x. progress_key x = progress_key r) (progress (put_progress r d)) = [r]"
  unfolding put_progress_def upsert_def
  by (simp add: filter_insort_key_single)

lemma put_progress_other_key:
  assumes "k \<noteq> progress_key r"
  shows "length (filter (\<lambda>x. progress_key x = k) (progress (put_progress r d)))
         = length (filter (\<lambda>x. progress_key x = k) (progress d))"
proof -
  have "filter (\<lambda>x. progress_key x = k) (filter (\<lambda>x. progress_key x \<noteq> progress_key r) xs)
        = filter (\<lambda>x. progress_key x = k) xs" for xs
    using assms by (induction xs) auto
  with assms show ?thesis
    unfolding put_progress_def upsert_def by (simp add: length_filter_insort_key)
qed

lemma apply_mark_put: "apply_mark pid lid m d = put_progress (mark_row pid lid m) d"
  by (cases m) (simp_all add: apply_mark_def mark_row_def markLessonComplete_def
      markLessonIncomplete_def)

lemma mark_row_key [simp]: "progress_key (mark_row pid lid m) = (pid, lid)"
  by (cases m) (simp_all add: mark_row_def progress_key_def)

lemma fold_marks_other_key:
  "k \<noteq> (pid, lid) \<Longrightarrow>
   length (filter (\<lambda>x. progress_key x = k) (progress (fold (apply_mark pid lid) ms d)))
   = length (filter (\<lambda>x. progress_key x = k) (progress d))"
  by (induction ms arbitrary: d) (simp_all add: apply_mark_put put_progress_other_key)

text \<open>
  C9. However often \<open>markLessonComplete\<close> and \<open>markLessonIncomplete\<close> are called for one
  \<open>(profileId, lessonId)\<close>, in whatever order and from whatever store, the store then holds
  exactly one row under that key, the record of the last call, and as many rows under every
  other key as before.
\<close>

theorem mark_upsert_one_row:
  "filter (\<lambda>r. progress_key r = (pid, lid))
     (progress (fold (apply_mark pid lid) (ms @ [m]) d)) = [mark_row pid lid m]
   \<and> (k \<noteq> (pid, lid) \<longrightarrow>
        length (filter (\<lambda>r. progress_key r = k)
                  (progress (fold (apply_mark pid lid) (ms @ [m]) d)))
        = length (filter (\<lambda>r. progress_key r = k) (progress d)))"
proof -
  have "filter (\<lambda>r. progress_key r = (pid, lid))
          (progress (apply_mark pid lid m (fold (apply_mark pid lid) ms d))) = [mark_row pid lid m]"
    using put_progress_same_key [of "mark_row pid lid m"]
    by (simp add: apply_mark_put)
  then show ?thesis
    using fold_marks_other_key [of k pid lid "ms @ [m]" d] by simp
qed

theorem mark_upsert_one_row_witness:
  "filter (\<lambda>r. progress_key r = (''p1'', ''arrays''))
     (progress (fold (apply_mark ''p1'' ''arrays'')
        ([Complete (sample_env ''x''), Incomplete] @ [Complete (sample_env ''y'')])
        (markLessonIncomplete ''p1'' ''trees'' empty_db)))
   = [\<lparr>pr_profileId = ''p1'', pr_lessonId = ''arrays'', pr_completed = True,
        pr_completedAt = Some ''2024-01-01T00:00:00.000Z''\<rparr>]
   \<and> length (filter (\<lambda>r. progress_key r = (''p1'', ''trees''))
        (progress (fold (apply_mark ''p1'' ''arrays'')
           ([Complete (sample_env ''x''), Incomplete] @ [Complete (sample_env ''y'')])
           (markLessonIncomplete ''p1'' ''trees'' empty_db)))) = 1"
proof -
  have k: "(''p1'', ''trees'') \<noteq> (''p1'', ''arrays'')" by simp
  have r: "mark_row ''p1'' ''arrays'' (Complete (sample_env ''y''))
           = \<lparr>pr_profileId = ''p1'', pr_lessonId = ''arrays'', pr_completed = True,
              pr_completedAt = Some ''2024-01-01T00:00:00.000Z''\<rparr>"
    by (simp add: mark_row_def sample_env_def)
  have l: "length (filter (\<lambda>r. progress_key r = (''p1'', ''trees''))
             (progress (markLessonIncomplete ''p1'' ''trees'' empty_db))) = 1"
    by (simp add: markLessonIncomplete_def put_progress_def upsert_def empty_db_def
        progress_key_def)
  show ?thesis
    using mark_upsert_one_row
      [of "''p1''" "''arrays''" "[Complete (sample_env ''x''), Incomplete]"
          "Complete (sample_env ''y'')" "markLessonIncomplete ''p1'' ''trees'' empty_db"
          "(''p1'', ''trees'')"] k r l
    by simp
qed

subsection \<open>PIN checks on an unknown profile\<close>

text \<open>
  C10. For a \<open>profileId\<close> that the profiles store does not hold, \<open>verifyProfilePin\<close> returns
  \<open>false\<close> for every attempt; it raises no error.
\<close>

theorem verifyProfilePin_unknown_profile:
  "getProfile pid d = None \<Longrightarrow> verifyProfilePin P pid pinAttempt d = Inr False"
  by (simp add: verifyProfilePin_def)

theorem verifyProfilePin_unknown_profile_witness:
  "getProfile ''ghost'' empty_db = None
   \<and> verifyProfilePin sample_platform ''ghost'' ''1234'' empty_db = Inr False"
proof -
  have h: "getProfile ''ghost'' empty_db = None"
    by (simp add: getProfile_def empty_db_def)
  show ?thesis
    using h verifyProfilePin_unknown_profile [OF h, of sample_platform "''1234''"] by simp
qed

subsection \<open>Short PINs at creation\<close>

text \<open>
  C3. \<open>createProfile\<close> does not check the length of the PIN: with the two character PIN
  \<open>12\<close> it succeeds and stores a profile with a salt and a hash derived from it, where
  \<open>setProfilePin\<close> refuses the same PIN.
\<close>

theorem createProfile_short_pin_persisted:
  "(case createProfile sample_platform (sample_env ''id1'') ''Ava'' (Some ''12'') empty_db of
      (Inl e, d) \<Rightarrow> False
    | (Inr p, d) \<Rightarrow>
        pinSalt p = Some ''BwcHBwcHBwcHBwcHBwcHBw==''
        \<and> pinHash p = Some ''MTIHBwcHBwcHBwcHBwcHBwcHAAAAAAAAAAAAAAAAAAA=''
        \<and> getProfile ''id1'' d = Some p)
   \<and> fst (setProfilePin sample_platform (sample_env ''id1'') ''id1'' ''12'' empty_db)
       = Inl (Error ''PIN must be at least 4 characters'')"
  by code_simp

subsection \<open>Cascading delete\<close>

lemma request_None: "request None f t = Inr (fst (f (fst t)), (snd (f (fst t)), Suc (snd t)))"
  by (simp add: request_def split: prod.splits)

lemma request_InrD:
  "request fault f t = Inr (x, t') \<Longrightarrow> x = fst (f (fst t)) \<and> fst t' = snd (f (fst t))"
  by (auto simp: request_def split: if_splits prod.splits)

lemma delete_progress_cursor_Inr:
  "delete_progress_cursor fault rows t = Inr (u, t') \<Longrightarrow>
   progress (fst t') = filter (\<lambda>x. progress_key x \<notin> progress_key ` set rows) (progress (fst t))
   \<and> profiles (fst t') = profiles (fst t) \<and> quizResults (fst t') = quizResults (fst t)"
proof (induction rows arbitrary: t)
  case Nil
  then show ?case by simp
next
  case (Cons r rs)
  from Cons.prems obtain u1 t1 u2 t2 where
    a: "request fault (\<lambda>d. ((), delete_progress_key (progress_key r) d)) t = Inr (u1, t1)"
    and b: "request fault (\<lambda>d. ((), d)) t1 = Inr (u2, t2)"
    and c: "delete_progress_cursor fault rs t2 = Inr (u, t')"
    by (auto split: sum.splits)
  from request_InrD [OF a] have t1: "fst t1 = delete_progress_key (progress_key r) (fst t)" by simp
  from request_InrD [OF b] have t2: "fst t2 = fst t1" by simp
  from Cons.IH [OF c] t1 t2 show ?case
    by (auto simp: delete_progress_key_def intro: filter_cong)
qed

lemma delete_quiz_cursor_Inr:
  "delete_quiz_cursor fault rows t = Inr (u, t') \<Longrightarrow>
   quizResults (fst t') = filter (\<lambda>x. fst x \<notin> fst ` set rows) (quizResults (fst t))
   \<and> profiles (fst t') = profiles (fst t) \<and> progress (fst t') = progress (fst t)"
proof (induction rows arbitrary: t)
  case Nil
  then show ?case by simp
next
  case (Cons r rs)
  from Cons.prems obtain u1 t1 u2 t2 where
    a: "request fault (\<lambda>d. ((), delete_quiz_key (fst r) d)) t = Inr (u1, t1)"
    and b: "request fault (\<lambda>d. ((), d)) t1 = Inr (u2, t2)"
    and c: "delete_quiz_cursor fault rs t2 = Inr (u, t')"
    by (auto split: sum.splits)
  from request_InrD [OF a] have t1: "fst t1 = delete_quiz_key (fst r) (fst t)" by simp
  from request_InrD [OF b] have t2: "fst t2 = fst t1" by simp
  from Cons.IH [OF c] t1 t2 show ?case
    by (auto simp: delete_quiz_key_def intro: filter_cong)
qed

lemma delete_progress_cursor_None:
  "\<exists>t'. delete_progress_cursor None rows t = Inr ((), t')"
  by (induction rows arbitrary: t) (simp_all add: request_None)

lemma delete_quiz_cursor_None:
  "\<exists>t'. delete_quiz_cursor None rows t = Inr ((), t')"
  by (induction rows arbitrary: t) (simp_all add: request_None)

lemma deleteProfile_body_Inr:
  assumes "deleteProfile_body fault pid t = Inr (u, t')"
  shows "profiles (fst t') pid = None \<and> progress_byProfileId pid (fst t') = []
         \<and> quiz_byProfileId pid (fst t') = []"
proof -
  from assms obtain u1 t1 rows t2 u3 t3 qrows t4 u5 t5 where
    a: "request fault (\<lambda>d. ((), delete_profile_key pid d)) t = Inr (u1, t1)"
    and b: "request fault (\<lambda>d. (progress_byProfileId pid d, d)) t1 = Inr (rows, t2)"
    and c: "delete_progress_cursor fault rows t2 = Inr (u3, t3)"
    and d: "request fault (\<lambda>d. (quiz_byProfileId pid d, d)) t3 = Inr (qrows, t4)"
    and e: "delete_quiz_cursor fault qrows t4 = Inr (u5, t5)"
    and f: "request fault (\<lambda>d. ((), d)) t5 = Inr (u, t')"
    unfolding deleteProfile_body_def by (auto split: sum.splits)
  from request_InrD [OF a] have t1: "fst t1 = delete_profile_key pid (fst t)" by simp
  from request_InrD [OF b] have t2: "fst t2 = fst t1" "rows = progress_byProfileId pid (fst t1)"
    by simp_all
  from request_InrD [OF d] have t4: "fst t4 = fst t3" "qrows = quiz_byProfileId pid (fst t3)"
    by simp_all
  from request_InrD [OF f] have t': "fst t' = fst t5" by simp
  note p = delete_progress_cursor_Inr [OF c] and q = delete_quiz_cursor_Inr [OF e]
  have 1: "profiles (fst t') pid = None"
    using p q t1 t2 t4 t' by (simp add: delete_profile_key_def)
  have 2: "progress_byProfileId pid (fst t') = []"
    using p q t2 t4 t'
    by (auto simp: progress_byProfileId_def filter_empty_conv progress_key_def)
  have 3: "quiz_byProfileId pid (fst t') = []"
    using q t4 t'
    by (auto simp: quiz_byProfileId_def filter_empty_conv)
  from 1 2 3 show ?thesis by simp
qed

lemma deleteProfile_body_None: "\<exists>t'. deleteProfile_body None pid t = Inr ((), t')"
proof -
  obtain t3 where c: "delete_progress_cursor None
      (progress_byProfileId pid (delete_profile_key pid (fst t)))
      (delete_profile_key pid (fst t), Suc (Suc (snd t))) = Inr ((), t3)"
    using delete_progress_cursor_None by blast
  obtain t5 where e: "delete_quiz_cursor None (quiz_byProfileId pid (fst t3))
      (fst t3, Suc (snd t3)) = Inr ((), t5)"
    using delete_quiz_cursor_None by blast
  show ?thesis
    unfolding deleteProfile_body_def by (simp add: request_None c e)
qed

text \<open>
  C1. \<open>deleteProfile\<close> runs in one read-write transaction over the three stores. Whatever
  request of it the storage engine fails, the call throws and the stores are exactly as
  before; otherwise the profile is gone and no progress row and no quiz row carries its
  \<open>profileId\<close>. When no request fails, the call completes.
\<close>

theorem deleteProfile_atomic:
  "(case deleteProfile fault pid d of
      (Inl e, d') \<Rightarrow> d' = d
    | (Inr u, d') \<Rightarrow>
        getProfile pid d' = None \<and> progress_byProfileId pid d' = []
        \<and> quiz_byProfileId pid d' = [])
   \<and> fst (deleteProfile None pid d) = Inr ()"
proof -
  have "\<exists>t'. deleteProfile_body None pid (d, 0) = Inr ((), t')"
    by (rule deleteProfile_body_None)
  then have 2: "fst (deleteProfile None pid d) = Inr ()"
    by (auto simp: deleteProfile_def transaction_def)
  have 1: "(case deleteProfile fault pid d of
      (Inl e, d') \<Rightarrow> d' = d
    | (Inr u, d') \<Rightarrow>
        getProfile pid d' = None \<and> progress_byProfileId pid d' = []
        \<and> quiz_byProfileId pid d' = [])"
  proof (cases "deleteProfile_body fault pid (d, 0)")
    case (Inl e)
    then show ?thesis by (simp add: deleteProfile_def transaction_def)
  next
    case (Inr r)
    obtain u t' where r: "r = (u, t')" by (cases r)
    from deleteProfile_body_Inr [of fault pid "(d, 0)" u t'] Inr r
    show ?thesis by (simp add: deleteProfile_def transaction_def getProfile_def)
  qed
  from 1 2 show ?thesis by simp
qed

theorem deleteProfile_atomic_witness:
  "fst (deleteProfile (Some 3) ''id1'' sample_store) = Inl EngineError
   \<and> snd (deleteProfile (Some 3) ''id1'' sample_store) = sample_store
   \<and> getProfile ''id1'' sample_store \<noteq> None
   \<and> progress_byProfileId ''id1'' sample_store \<noteq> []
   \<and> quiz_byProfileId ''id1'' sample_store \<noteq> []
   \<and> fst (deleteProfile None ''id1'' sample_store) = Inr ()
   \<and> getProfile ''id1'' (snd (deleteProfile None ''id1'' sample_store)) = None
   \<and> progress_byProfileId ''id1'' (snd (deleteProfile None ''id1'' sample_store)) = []
   \<and> quiz_byProfileId ''id1'' (snd (deleteProfile None ''id1'' sample_store)) = []"
proof -
  have a: "fst (deleteProfile (Some 3) ''id1'' sample_store) = Inl EngineError"
    by code_simp
  have b: "getProfile ''id1'' sample_store \<noteq> None"
    by code_simp
  have c: "progress_byProfileId ''id1'' sample_store \<noteq> []"
    by code_simp
  have d: "quiz_byProfileId ''id1'' sample_store \<noteq> []"
    by code_simp
  show ?thesis
    using deleteProfile_atomic [where fault = "Some 3" and pid = "''id1''" and d = sample_store]
      deleteProfile_atomic [where fault = None and pid = "''id1''" and d = sample_store] a b c d
    by (auto split: prod.splits sum.splits)
qed

subsection \<open>Salt and hash come in pairs\<close>

lemma paired_put_profile:
  "credentials_paired d \<Longrightarrow> (pinSalt p = None) = (pinHash p = None) \<Longrightarrow>
   credentials_paired (put_profile p d)"
  by (auto simp: credentials_paired_def put_profile_def)

lemma paired_same_profiles:
  "credentials_paired d \<Longrightarrow> profiles d' = profiles d \<Longrightarrow> credentials_paired d'"
  by (simp add: credentials_paired_def)

lemma paired_lookup:
  "credentials_paired d \<Longrightarrow> profiles d pid = Some p \<Longrightarrow> (pinSalt p = None) = (pinHash p = None)"
  by (simp add: credentials_paired_def)

lemma paired_createProfile:
  "credentials_paired d \<Longrightarrow> credentials_paired (snd (createProfile P E nm pin d))"
  by (auto simp: createProfile_def Let_def intro!: paired_put_profile split: sum.splits)

lemma paired_renameProfile:
  "credentials_paired d \<Longrightarrow> credentials_paired (snd (renameProfile E pid nm d))"
  by (auto simp: renameProfile_def Let_def intro!: paired_put_profile dest: paired_lookup
      split: option.splits)

lemma paired_setProfilePin:
  "credentials_paired d \<Longrightarrow> credentials_paired (snd (setProfilePin P E pid pin d))"
  by (auto simp: setProfilePin_def Let_def intro!: paired_put_profile
      split: option.splits sum.splits)

lemma paired_clearProfilePin:
  "credentials_paired d \<Longrightarrow> credentials_paired (snd (clearProfilePin E pid d))"
  by (auto simp: clearProfilePin_def Let_def intro!: paired_put_profile split: option.splits)

lemma paired_deleteProfile:
  assumes "credentials_paired d"
  shows "credentials_paired (snd (deleteProfile fault pid d))"
proof (cases "deleteProfile_body fault pid (d, 0)")
  case (Inl e)
  with assms show ?thesis by (simp add: deleteProfile_def transaction_def)
next
  case (Inr r)
  obtain u t' where r: "r = (u, t')" by (cases r)
  from Inr r obtain u1 t1 rows t2 u3 t3 qrows t4 u5 t5 where
    a: "request fault (\<lambda>d. ((), delete_profile_key pid d)) (d, 0) = Inr (u1, t1)"
    and b: "request fault (\<lambda>d. (progress_byProfileId pid d, d)) t1 = Inr (rows, t2)"
    and c: "delete_progress_cursor fault rows t2 = Inr (u3, t3)"
    and d: "request fault (\<lambda>d. (quiz_byProfileId pid d, d)) t3 = Inr (qrows, t4)"
    and e: "delete_quiz_cursor fault qrows t4 = Inr (u5, t5)"
    and f: "request fault (\<lambda>d. ((), d)) t5 = Inr (u, t')"
    unfolding deleteProfile_body_def by (auto split: sum.splits)
  have "profiles (fst t') = (profiles d)(pid := None)"
    using request_InrD [OF a] request_InrD [OF b] request_InrD [OF d] request_InrD [OF f]
      delete_progress_cursor_Inr [OF c] delete_quiz_cursor_Inr [OF e]
    by (simp add: delete_profile_key_def)
  with assms have "credentials_paired (fst t')"
    by (auto simp: credentials_paired_def split: if_splits)
  with Inr r show ?thesis by (simp add: deleteProfile_def transaction_def)
qed

lemma import_progress_profiles:
  "import_progress fault pid ps t = Inr (u, t') \<Longrightarrow> profiles (fst t') = profiles (fst t)"
proof (induction ps arbitrary: t)
  case Nil
  then show ?case by simp
next
  case (Cons p ps)
  show ?case
  proof (cases "sg_lessonId p = []")
    case True
    with Cons show ?thesis by simp
  next
    case False
    with Cons.prems obtain u1 t1 where
      a: "request fault (\<lambda>d. ((), put_progress
            \<lparr>pr_profileId = pid, pr_lessonId = sg_lessonId p, pr_completed = sg_completed p,
             pr_completedAt = or_null (sg_completedAt p)\<rparr> d)) t = Inr (u1, t1)"
      and b: "import_progress fault pid ps t1 = Inr (u, t')"
      by (auto split: sum.splits)
    from request_InrD [OF a] Cons.IH [OF b] show ?thesis
      by (simp add: put_progress_def)
  qed
qed

lemma import_quiz_profiles:
  "import_quiz E fault pid i qs t = Inr (u, t') \<Longrightarrow> profiles (fst t') = profiles (fst t)"
proof (induction qs arbitrary: t i)
  case Nil
  then show ?case by simp
next
  case (Cons q qs)
  show ?case
  proof (cases "sq_quizId q = []")
    case True
    with Cons show ?thesis by simp
  next
    case False
    with Cons.prems obtain u1 t1 f where
      a: "request fault (add_quiz f) t = Inr (u1, t1)"
      and b: "import_quiz E fault pid (Suc i) qs t1 = Inr (u, t')"
      by (auto split: sum.splits)
    from request_InrD [OF a] Cons.IH [OF b] show ?thesis
      by (simp add: add_quiz_def)
  qed
qed

lemma paired_import_body:
  assumes "credentials_paired (fst t)" and "import_body E fault pid nm s t = Inr (r, t')"
  shows "credentials_paired (fst t')"
proof -
  from assms(2) obtain po t1 u2 t2 u3 t3 u4 t4 u5 where
    a: "request fault (\<lambda>d. (profiles d pid, d)) t = Inr (po, t1)"
    and b: "(case po of None \<Rightarrow> Inr ((), t1)
             | Some p \<Rightarrow> request fault
                 (\<lambda>d. ((), put_profile (p\<lparr>name := nm, updatedAt := now E 1\<rparr>) d)) t1)
            = Inr (u2, t2)"
    and c: "import_progress fault pid (sn_progress s) t2 = Inr (u3, t3)"
    and d: "import_quiz E fault pid 0 (sn_quizResults s) t3 = Inr (u4, t4)"
    and e: "request fault (\<lambda>d. ((), d)) t4 = Inr (u5, t')"
    unfolding import_body_def by (auto split: sum.splits)
  from request_InrD [OF a] have t1: "po = profiles (fst t) pid" "fst t1 = fst t" by simp_all
  have "credentials_paired (fst t2)"
  proof (cases po)
    case None
    with b t1 assms(1) show ?thesis by simp
  next
    case (Some p)
    with b have "request fault (\<lambda>d. ((), put_profile (p\<lparr>name := nm, updatedAt := now E 1\<rparr>) d)) t1
                 = Inr (u2, t2)" by simp
    from request_InrD [OF this] have "fst t2 = put_profile (p\<lparr>name := nm, updatedAt := now E 1\<rparr>) (fst t)"
      using t1 by simp
    moreover have "(pinSalt p = None) = (pinHash p = None)"
      using assms(1) Some t1 by (auto dest: paired_lookup)
    ultimately show ?thesis using assms(1) by (simp add: paired_put_profile)
  qed
  moreover have "profiles (fst t') = profiles (fst t2)"
    using import_progress_profiles [OF c] import_quiz_profiles [OF d] request_InrD [OF e] by simp
  ultimately show ?thesis by (rule paired_same_profiles)
qed

lemma paired_transaction:
  assumes "credentials_paired d"
    and "\<And>r t'. body (d, 0) = Inr (r, t') \<Longrightarrow> credentials_paired (fst t')"
  shows "credentials_paired (snd (transaction body d))"
  using assms by (auto simp: transaction_def split: sum.splits)

lemma paired_importProfileData:
  assumes "credentials_paired d"
  shows "credentials_paired (snd (importProfileData P E fault data ov d))"
proof -
  have tx: "credentials_paired (snd (transaction (import_body E fault pid nm s) d1))"
    if "credentials_paired d1" for pid nm s d1
  proof (rule paired_transaction [OF that])
    fix r t' assume "import_body E fault pid nm s (d1, 0) = Inr (r, t')"
    with that show "credentials_paired (fst t')"
      using paired_import_body [of "(d1, 0)" E fault pid nm s r t'] by simp
  qed
  have cr: "credentials_paired d1" if "createProfile P E nm None d = (r, d1)" for nm r d1
    using paired_createProfile [OF assms, of P E nm None] that by simp
  show ?thesis
    using assms tx cr
    by (auto simp: importProfileData_def Let_def split: option.splits prod.splits sum.splits)
qed

lemma paired_exec:
  assumes "credentials_paired d"
  shows "credentials_paired (exec P E c d)"
proof (cases c)
  case (MarkLessonComplete pid lid)
  with assms show ?thesis
    by (auto elim: paired_same_profiles simp: markLessonComplete_def put_progress_def)
next
  case (MarkLessonIncomplete pid lid)
  with assms show ?thesis
    by (auto elim: paired_same_profiles simp: markLessonIncomplete_def put_progress_def)
next
  case (SubmitQuizResult pid quizId score totalQuestions ans)
  with assms show ?thesis
    by (auto elim: paired_same_profiles simp: submitQuizResult_def add_quiz_def Let_def)
qed (simp_all add: assms paired_createProfile paired_renameProfile paired_setProfilePin
      paired_clearProfilePin paired_deleteProfile paired_importProfileData)

text \<open>
  C6. Every call that writes to the store (create, rename, set PIN, clear PIN, import,
  delete, and the progress and quiz writes), with any arguments, clock, identifier, salt and
  storage failure, keeps \<open>pinSalt\<close> and \<open>pinHash\<close> of every stored profile both null or
  both set; so does every sequence of calls, and the empty store has the property.
\<close>

theorem credentials_paired_run:
  "credentials_paired d \<Longrightarrow> credentials_paired (run P cs d)"
  by (induction cs arbitrary: d) (simp_all add: paired_exec)

theorem credentials_paired_run_witness:
  "credentials_paired empty_db
   \<and> credentials_paired
       (run sample_platform
          [(sample_env ''id1'', CreateProfile ''Ava'' (Some ''1234'')),
           (sample_env ''id1'', RenameProfile ''id1'' ''Eve''),
           (sample_env ''id1'', ClearProfilePin ''id1''),
           (sample_env ''id1'', SetProfilePin ''id1'' ''4321'')] empty_db)
   \<and> map_option (\<lambda>p. (name p, pinSalt p \<noteq> None, pinHash p \<noteq> None))
        (getProfile ''id1''
          (run sample_platform
             [(sample_env ''id1'', CreateProfile ''Ava'' (Some ''1234'')),
              (sample_env ''id1'', RenameProfile ''id1'' ''Eve''),
              (sample_env ''id1'', ClearProfilePin ''id1''),
              (sample_env ''id1'', SetProfilePin ''id1'' ''4321'')] empty_db))
       = Some (''Eve'', True, True)"
proof -
  have h: "credentials_paired empty_db"
    by (simp add: credentials_paired_def empty_db_def)
  have e: "map_option (\<lambda>p. (name p, pinSalt p \<noteq> None, pinHash p \<noteq> None))
        (getProfile ''id1''
          (run sample_platform
             [(sample_env ''id1'', CreateProfile ''Ava'' (Some ''1234'')),
              (sample_env ''id1'', RenameProfile ''id1'' ''Eve''),
              (sample_env ''id1'', ClearProfilePin ''id1''),
              (sample_env ''id1'', SetProfilePin ''id1'' ''4321'')] empty_db))
       = Some (''Eve'', True, True)"
    by code_simp
  show ?thesis
    using h e credentials_paired_run [OF h, of sample_platform
          "[(sample_env ''id1'', CreateProfile ''Ava'' (Some ''1234'')),
           (sample_env ''id1'', RenameProfile ''id1'' ''Eve''),
           (sample_env ''id1'', ClearProfilePin ''id1''),
           (sample_env ''id1'', SetProfilePin ''id1'' ''4321'')]"]
    by simp
qed

subsection \<open>Import\<close>

lemma importProfileData_version_mismatch:
  "version s \<noteq> 1 \<Longrightarrow>
   importProfileData P E fault (Some s) ov d = (Inl (Error ''Unsupported import version''), d)"
  by (simp add: importProfileData_def)

lemma importProfileData_missing_name:
  "version s = 1 \<Longrightarrow> (case sn_profile s of None \<Rightarrow> [] | Some sp \<Rightarrow> sp_name sp) = [] \<Longrightarrow>
   importProfileData P E fault (Some s) ov d = (Inl (Error ''Import is missing profile name''), d)"
  by (simp add: importProfileData_def)

lemma importProfileData_overwrite_atomic:
  "truthy ov \<Longrightarrow> fst (importProfileData P E fault data ov d) = Inl e \<Longrightarrow>
   snd (importProfileData P E fault data ov d) = d"
  by (auto simp: importProfileData_def transaction_def Let_def
      split: option.splits sum.splits prod.splits if_splits)

text \<open>
  C4. An import without \<open>overwriteProfileId\<close> creates the profile with \<open>createProfile\<close>, which
  commits on its own, and only then opens the transaction for the write batch. When the
  storage engine fails the progress write, the transaction aborts and the import throws, and
  the store holds a profile that it did not hold before. The import into an existing profile
  (\<open>importProfileData_overwrite_atomic\<close>) leaves the store as it was.
\<close>

theorem importProfileData_abort_leaves_new_profile:
  "getProfile ''id2'' empty_db = None
   \<and> fst (importProfileData sample_platform (sample_env ''id2'') (Some 2)
            (Some sample_snapshot) None empty_db) = Inl EngineError
   \<and> map_option name
        (getProfile ''id2''
           (snd (importProfileData sample_platform (sample_env ''id2'') (Some 2)
                   (Some sample_snapshot) None empty_db))) = Some ''Ava''
   \<and> progress_byProfileId ''id2''
        (snd (importProfileData sample_platform (sample_env ''id2'') (Some 2)
                (Some sample_snapshot) None empty_db)) = []"
  by code_simp

subsection \<open>PIN verification\<close>

lemma derivePinHashBase64_generated:
  "has_subtle P \<Longrightarrow>
   derivePinHashBase64 P pin (generateSaltBase64 E n) it
   = Inr (toBase64 (pbkdf2 P (text_encode P pin) (random_bytes E n) it 256))"
  by (simp add: derivePinHashBase64_def generateSaltBase64_def fromBase64_toBase64)

lemma derivePinHashBase64_no_subtle:
  "\<not> has_subtle P \<Longrightarrow>
   derivePinHashBase64 P pin salt it = Inl (Error ''WebCrypto is not available in this browser'')"
  by (simp add: derivePinHashBase64_def)

lemma getProfile_put_profile [simp]: "getProfile (profileId p) (put_profile p d) = Some p"
  by (simp add: getProfile_def put_profile_def)

lemma createProfile_with_pin:
  assumes "createProfile P E nm (Some pin) d = (Inr p, d')" and "pin \<noteq> []"
  shows "has_subtle P"
    and "pinSalt p = Some (generateSaltBase64 E 16)"
    and "pinHash p
         = Some (toBase64 (pbkdf2 P (text_encode P pin) (random_bytes E 16) 100000 256))"
    and "d' = put_profile p d"
proof -
  show s: "has_subtle P"
    using assms
    by (cases "has_subtle P")
      (auto simp: createProfile_def truthy_def derivePinHashBase64_no_subtle split: if_splits)
  from assms derivePinHashBase64_generated [OF s, of pin E 16 100000]
  show "pinSalt p = Some (generateSaltBase64 E 16)"
    and "pinHash p
         = Some (toBase64 (pbkdf2 P (text_encode P pin) (random_bytes E 16) 100000 256))"
    and "d' = put_profile p d"
    by (auto simp: createProfile_def truthy_def Let_def split: if_splits)
qed

lemma createProfile_succeeds:
  assumes "nm \<noteq> []" and "js_trim nm \<noteq> []" and "pin \<noteq> []" and "has_subtle P"
  shows "\<exists>p. createProfile P E nm (Some pin) d = (Inr p, put_profile p d)"
  using assms derivePinHashBase64_generated [OF assms(4), of pin E 16 100000]
  by (simp add: createProfile_def truthy_def Let_def)

lemma verifyProfilePin_stored:
  assumes "getProfile pid d = Some p" and "has_subtle P"
    and "pinSalt p = Some (generateSaltBase64 E 16)"
    and "pinHash p = Some (toBase64 key)"
  shows "verifyProfilePin P pid attempt d
         = Inr (random_bytes E 16 = [] \<or> key = []
                \<or> pbkdf2 P (text_encode P attempt) (random_bytes E 16) 100000 256 = key)"
  using assms derivePinHashBase64_generated [OF assms(2), of attempt E 16 100000]
  by (auto simp: verifyProfilePin_def truthy_def toBase64_inject toBase64_eq_Nil
      generateSaltBase64_def)

text \<open>
  C2, as amended. With a valid name, a PIN of four or more characters and \<open>crypto.subtle\<close>
  present, \<open>createProfile\<close> succeeds. For a profile so created, \<open>verifyProfilePin\<close> with the
  same PIN returns \<open>true\<close>; with any attempt it returns whether the key derived from the
  attempt under the profile's salt equals the key derived from the PIN (given that the
  platform fills the 16 byte salt and derives 32 bytes), so it returns \<open>false\<close> for every
  attempt whose derived key differs. For a profile without a PIN it returns \<open>true\<close> for
  every attempt.
\<close>

theorem verifyProfilePin_after_create:
  "(nm \<noteq> [] \<and> js_trim nm \<noteq> [] \<and> 4 \<le> length pin \<and> has_subtle P
      \<longrightarrow> (\<exists>p. createProfile P E nm (Some pin) d = (Inr p, put_profile p d)))
   \<and> (createProfile P E nm (Some pin) d = (Inr p, d') \<and> 4 \<le> length pin
      \<longrightarrow> verifyProfilePin P (profileId p) pin d' = Inr True)
   \<and> (createProfile P E nm (Some pin) d = (Inr p, d') \<and> 4 \<le> length pin
       \<and> length (random_bytes E 16) = 16
       \<and> (\<forall>k s. length (pbkdf2 P k s 100000 256) = 32)
      \<longrightarrow> verifyProfilePin P (profileId p) attempt d'
          = Inr (pbkdf2 P (text_encode P attempt) (random_bytes E 16) 100000 256
                 = pbkdf2 P (text_encode P pin) (random_bytes E 16) 100000 256))
   \<and> (getProfile pid d = Some q \<and> pinHash q = None
      \<longrightarrow> verifyProfilePin P pid attempt d = Inr True)"
proof (intro conjI impI)
  assume "nm \<noteq> [] \<and> js_trim nm \<noteq> [] \<and> 4 \<le> length pin \<and> has_subtle P"
  moreover from this have "pin \<noteq> []" by auto
  ultimately show "\<exists>p. createProfile P E nm (Some pin) d = (Inr p, put_profile p d)"
    by (simp add: createProfile_succeeds)
next
  assume a: "createProfile P E nm (Some pin) d = (Inr p, d') \<and> 4 \<le> length pin"
  then have ne: "pin \<noteq> []" by auto
  note c = createProfile_with_pin [OF conjunct1 [OF a] ne]
  have g: "getProfile (profileId p) d' = Some p" using c(4) by simp
  show "verifyProfilePin P (profileId p) pin d' = Inr True"
    using verifyProfilePin_stored [OF g c(1,2,3), of pin] by simp
next
  assume a: "createProfile P E nm (Some pin) d = (Inr p, d') \<and> 4 \<le> length pin
       \<and> length (random_bytes E 16) = 16
       \<and> (\<forall>k s. length (pbkdf2 P k s 100000 256) = 32)"
  then have ne: "pin \<noteq> []" by auto
  note c = createProfile_with_pin [OF conjunct1 [OF a] ne]
  have g: "getProfile (profileId p) d' = Some p" using c(4) by simp
  from a have "random_bytes E 16 \<noteq> []" by auto
  moreover from a have "length (pbkdf2 P (text_encode P pin) (random_bytes E 16) 100000 256) = 32"
    by blast
  then have "pbkdf2 P (text_encode P pin) (random_bytes E 16) 100000 256 \<noteq> []" by auto
  ultimately
  show "verifyProfilePin P (profileId p) attempt d'
          = Inr (pbkdf2 P (text_encode P attempt) (random_bytes E 16) 100000 256
                 = pbkdf2 P (text_encode P pin) (random_bytes E 16) 100000 256)"
    using verifyProfilePin_stored [OF g c(1,2,3), of attempt] by simp
next
  assume "getProfile pid d = Some q \<and> pinHash q = None"
  then show "verifyProfilePin P pid attempt d = Inr True"
    by (simp add: verifyProfilePin_def truthy_def)
qed

theorem verifyProfilePin_after_create_witness:
  "(\<exists>p. createProfile sample_platform (sample_env ''id1'') ''Ava'' (Some ''1234'') empty_db
          = (Inr p, put_profile p empty_db)
        \<and> verifyProfilePin sample_platform (profileId p) ''1234'' (put_profile p empty_db)
          = Inr True
        \<and> verifyProfilePin sample_platform (profileId p) ''0000'' (put_profile p empty_db)
          = Inr False)
   \<and> verifyProfilePin sample_platform ''id1'' ''0000''
        (put_profile \<lparr>profileId = ''id1'', name = ''Ava'', createdAt = '''', updatedAt = '''',
                      pinSalt = None, pinHash = None\<rparr> empty_db) = Inr True"
proof -
  let ?P = sample_platform and ?E = "sample_env ''id1''"
  let ?q = "\<lparr>profileId = ''id1'', name = ''Ava'', createdAt = '''', updatedAt = '''',
                      pinSalt = None, pinHash = None\<rparr>"
  have pre: "''Ava'' \<noteq> [] \<and> js_trim ''Ava'' \<noteq> [] \<and> 4 \<le> length ''1234'' \<and> has_subtle ?P"
    by (simp add: js_trim_def is_space_def sample_platform_def)
  from verifyProfilePin_after_create
    [where nm = "''Ava''" and pin = "''1234''" and P = ?P and E = ?E and d = empty_db] pre
  obtain p where cr: "createProfile ?P ?E ''Ava'' (Some ''1234'') empty_db
      = (Inr p, put_profile p empty_db)"
    by blast
  have len: "length (random_bytes ?E 16) = 16 \<and> (\<forall>k s. length (pbkdf2 ?P k s 100000 256) = 32)"
    by (auto simp: sample_env_def sample_platform_def)
  have ne: "pbkdf2 ?P (text_encode ?P ''0000'') (random_bytes ?E 16) 100000 256
            \<noteq> pbkdf2 ?P (text_encode ?P ''1234'') (random_bytes ?E 16) 100000 256"
    by (simp add: sample_platform_def)
  have q: "getProfile ''id1'' (put_profile ?q empty_db) = Some ?q \<and> pinHash ?q = None"
    by (simp add: getProfile_def put_profile_def)
  note t = verifyProfilePin_after_create
    [where nm = "''Ava''" and pin = "''1234''" and P = ?P and E = ?E and d = empty_db
       and p = p and d' = "put_profile p empty_db" and pid = "''id1''"
       and q = ?q]
  have 1: "verifyProfilePin ?P (profileId p) ''1234'' (put_profile p empty_db) = Inr True"
    using t cr by simp
  have 2: "verifyProfilePin ?P (profileId p) ''0000'' (put_profile p empty_db) = Inr False"
    using t [where attempt = "''0000''"] cr len ne by simp
  have 3: "verifyProfilePin ?P ''id1'' ''0000'' (put_profile ?q empty_db) = Inr True"
    using verifyProfilePin_after_create
      [where d = "put_profile ?q empty_db" and pid = "''id1''" and q = ?q
         and attempt = "''0000''" and P = ?P] q
    by blast
  from cr 1 2 3 show ?thesis by blast
qed

text \<open>
  Distinct PINs can derive the same key, and then the wrong PIN is accepted: the keys are
  32 bytes and the PINs are not bounded.
\<close>

lemma infinite_long_strings: "infinite {s :: string. 4 \<le> length s}"
proof -
  have "inj (\<lambda>n. replicate (n + 4) (CHR ''0''))"
    by (rule injI) (metis add_right_cancel length_replicate)
  then have "infinite (range (\<lambda>n. replicate (n + 4) (CHR ''0'')))"
    by (rule range_inj_infinite)
  moreover have "range (\<lambda>n. replicate (n + 4) (CHR ''0'')) \<subseteq> {s :: string. 4 \<le> length s}"
    by auto
  ultimately show ?thesis by (meson finite_subset)
qed

lemma hash_collision:
  assumes "\<forall>k s. length (pbkdf2 P k s n 256) = 32"
  shows "\<exists>pin wrongPin. 4 \<le> length pin \<and> wrongPin \<noteq> pin
           \<and> pbkdf2 P (text_encode P wrongPin) sb n 256 = pbkdf2 P (text_encode P pin) sb n 256"
proof -
  let ?f = "\<lambda>pin. pbkdf2 P (text_encode P pin) sb n 256"
  let ?A = "{s :: string. 4 \<le> length s}"
  have "?f ` ?A \<subseteq> {bs. set bs \<subseteq> (UNIV :: byte set) \<and> length bs = 32}"
    using assms by auto
  moreover have "finite {bs. set bs \<subseteq> (UNIV :: byte set) \<and> length bs = 32}"
    by (rule finite_lists_length_eq) simp
  ultimately have "finite (?f ` ?A)" by (rule finite_subset)
  then have "\<not> inj_on ?f ?A"
    using infinite_long_strings finite_imageD by blast
  then obtain x y where "x \<in> ?A" "y \<in> ?A" "x \<noteq> y" "?f x = ?f y"
    unfolding inj_on_def by blast
  then show ?thesis by (intro exI [of _ y] exI [of _ x]) simp
qed

text \<open>
  C2 as stated fails: on no platform whose derivation returns 256 bits does
  \<open>verifyProfilePin\<close> return \<open>false\<close> for every wrong PIN of every profile.
\<close>

theorem verifyProfilePin_wrong_pin_counterexample:
  "\<not> (\<exists>P E nm d.
        has_subtle P \<and> (\<forall>k s. length (pbkdf2 P k s 100000 256) = 32)
        \<and> nm \<noteq> [] \<and> js_trim nm \<noteq> []
        \<and> (\<forall>pin wrongPin p d'.
              4 \<le> length pin \<and> wrongPin \<noteq> pin
              \<and> createProfile P E nm (Some pin) d = (Inr p, d')
              \<longrightarrow> verifyProfilePin P (profileId p) wrongPin d' = Inr False))"
proof
  assume "\<exists>P E nm d.
        has_subtle P \<and> (\<forall>k s. length (pbkdf2 P k s 100000 256) = 32)
        \<and> nm \<noteq> [] \<and> js_trim nm \<noteq> []
        \<and> (\<forall>pin wrongPin p d'.
              4 \<le> length pin \<and> wrongPin \<noteq> pin
              \<and> createProfile P E nm (Some pin) d = (Inr p, d')
              \<longrightarrow> verifyProfilePin P (profileId p) wrongPin d' = Inr False)"
  then obtain P E nm d where
    sub: "has_subtle P" and len: "\<forall>k s. length (pbkdf2 P k s 100000 256) = 32"
    and nm: "nm \<noteq> []" "js_trim nm \<noteq> []"
    and all: "\<forall>pin wrongPin p d'.
              4 \<le> length pin \<and> wrongPin \<noteq> pin
              \<and> createProfile P E nm (Some pin) d = (Inr p, d')
              \<longrightarrow> verifyProfilePin P (profileId p) wrongPin d' = Inr False"
    by blast
  from hash_collision [OF len, of "random_bytes E 16"] obtain pin wrongPin where
    pin: "4 \<le> length pin" "wrongPin \<noteq> pin"
    and eq: "pbkdf2 P (text_encode P wrongPin) (random_bytes E 16) 100000 256
             = pbkdf2 P (text_encode P pin) (random_bytes E 16) 100000 256"
    by blast
  from pin(1) have ne: "pin \<noteq> []" by auto
  from createProfile_succeeds [OF nm ne sub, of E d] obtain p where
    cr: "createProfile P E nm (Some pin) d = (Inr p, put_profile p d)" by blast
  note c = createProfile_with_pin [OF cr ne]
  have g: "getProfile (profileId p) (put_profile p d) = Some p" by simp
  have "verifyProfilePin P (profileId p) wrongPin (put_profile p d) = Inr True"
    using verifyProfilePin_stored [OF g c(1,2,3), of wrongPin] eq by simp
  moreover have "verifyProfilePin P (profileId p) wrongPin (put_profile p d) = Inr False"
    using all pin cr by blast
  ultimately show False by simp
qed

subsection \<open>Best scores\<close>

lemma js_gt_trans: "js_gt a b \<Longrightarrow> js_gt b c \<Longrightarrow> js_gt a c"
  by (cases a; cases b; cases c) simp_all

lemma js_gt_not_trans: "js_gt a b \<Longrightarrow> \<not> js_gt c b \<Longrightarrow> c \<noteq> NaN \<Longrightarrow> js_gt a c"
  by (cases a; cases b; cases c) simp_all

lemma best_step_other: "qr_quizId x \<noteq> q \<Longrightarrow> best_step x m q = m q"
  by (simp add: best_step_def Let_def)

lemma best_step_same:
  assumes "\<not> List.member object_prototype_names (qr_quizId x)"
  shows "best_step x m (qr_quizId x)
         = (case m (qr_quizId x) of
              None \<Rightarrow> Some (best_of x)
            | Some b \<Rightarrow> if js_gt (row_percentage x) (b_percentage b) then Some (best_of x)
                        else Some b)"
  using assms
  by (simp add: best_step_def get_property_def best_of_def Let_def split: option.splits)

lemma best_step_inherited:
  "List.member object_prototype_names (qr_quizId x) \<Longrightarrow> m (qr_quizId x) = None \<Longrightarrow>
   best_step x m = m"
  by (simp add: best_step_def get_property_def Let_def)

text \<open>
  For a quiz whose id is not the name of a property of \<open>Object.prototype\<close>, and rows whose
  percentage is not \<open>NaN\<close>, the loop reports the first row with the greatest percentage.
\<close>

lemma fold_best_step_first_max:
  assumes "\<forall>r\<in>set rows. row_percentage r \<noteq> NaN"
    and "\<not> List.member object_prototype_names q"
  shows "(filter (\<lambda>r. qr_quizId r = q) rows = [] \<and> fold best_step rows Map.empty q = None)
         \<or> (\<exists>xs r ys. filter (\<lambda>r. qr_quizId r = q) rows = xs @ r # ys
               \<and> (\<forall>x\<in>set xs. js_gt (row_percentage r) (row_percentage x))
               \<and> (\<forall>y\<in>set ys. \<not> js_gt (row_percentage y) (row_percentage r))
               \<and> fold best_step rows Map.empty q = Some (best_of r))"
  using assms(1)
proof (induction rows rule: rev_induct)
  case Nil
  then show ?case by simp
next
  case (snoc x rows)
  let ?m = "fold best_step rows Map.empty"
  let ?f = "filter (\<lambda>r. qr_quizId r = q)"
  from snoc.prems have nn: "\<forall>r\<in>set rows. row_percentage r \<noteq> NaN" and xn: "row_percentage x \<noteq> NaN"
    by simp_all
  note IH = snoc.IH [OF nn]
  show ?case
  proof (cases "qr_quizId x = q")
    case False
    with IH show ?thesis by (simp add: best_step_other)
  next
    case True
    then have f: "?f (rows @ [x]) = ?f rows @ [x]" by simp
    have st: "fold best_step (rows @ [x]) Map.empty q
              = (case ?m q of None \<Rightarrow> Some (best_of x)
                 | Some b \<Rightarrow> if js_gt (row_percentage x) (b_percentage b) then Some (best_of x)
                             else Some b)"
      using best_step_same [of x ?m] True assms(2) by simp
    from IH show ?thesis
    proof (elim disjE conjE exE)
      assume "?f rows = []" "?m q = None"
      then have "?f (rows @ [x]) = [] @ x # []" "fold best_step (rows @ [x]) Map.empty q = Some (best_of x)"
        using f st by simp_all
      then show ?thesis by (intro disjI2 exI [of _ "[]"] exI [of _ x]) simp
    next
      fix xs r ys
      assume d: "?f rows = xs @ r # ys"
        and lo: "\<forall>x\<in>set xs. js_gt (row_percentage r) (row_percentage x)"
        and hi: "\<forall>y\<in>set ys. \<not> js_gt (row_percentage y) (row_percentage r)"
        and m: "?m q = Some (best_of r)"
      have mem: "set ys \<subseteq> set rows"
        using d by (metis Un_iff filter_is_subset set_append set_subset_Cons subset_iff)
      show ?thesis
      proof (cases "js_gt (row_percentage x) (row_percentage r)")
        case True
        have "js_gt (row_percentage x) (row_percentage y)" if "y \<in> set xs" for y
          using True lo that by (blast intro: js_gt_trans)
        moreover have "js_gt (row_percentage x) (row_percentage y)" if "y \<in> set ys" for y
        proof -
          from that mem nn have "row_percentage y \<noteq> NaN" by blast
          with True hi that show ?thesis by (blast intro: js_gt_not_trans)
        qed
        ultimately have "\<forall>y\<in>set (xs @ r # ys). js_gt (row_percentage x) (row_percentage y)"
          using True by auto
        moreover have "?f (rows @ [x]) = (xs @ r # ys) @ x # []" using f d by simp
        moreover have "fold best_step (rows @ [x]) Map.empty q = Some (best_of x)"
          using st m True by (simp add: best_of_def)
        ultimately show ?thesis
          by (intro disjI2 exI [of _ "xs @ r # ys"] exI [of _ x] exI [of _ "[]"]) simp
      next
        case False
        have "?f (rows @ [x]) = xs @ r # (ys @ [x])" using f d by simp
        moreover have "fold best_step (rows @ [x]) Map.empty q = Some (best_of r)"
          using st m False by (simp add: best_of_def)
        ultimately show ?thesis
          using lo hi False by (intro disjI2 exI [of _ xs] exI [of _ r] exI [of _ "ys @ [x]"]) simp
      qed
    qed
  qed
qed

lemma getBestQuizScores_first_max:
  assumes "\<forall>r\<in>set (quiz_byProfileId pid d). row_percentage (snd r) \<noteq> NaN"
    and "\<not> List.member object_prototype_names q"
  shows "(filter (\<lambda>r. qr_quizId r = q) (map snd (quiz_byProfileId pid d)) = []
           \<and> getBestQuizScores pid d q = None)
         \<or> (\<exists>xs r ys. filter (\<lambda>r. qr_quizId r = q) (map snd (quiz_byProfileId pid d)) = xs @ r # ys
               \<and> (\<forall>x\<in>set xs. js_gt (row_percentage r) (row_percentage x))
               \<and> (\<forall>y\<in>set ys. \<not> js_gt (row_percentage y) (row_percentage r))
               \<and> getBestQuizScores pid d q = Some (best_of r))"
  unfolding getBestQuizScores_def
  using assms by (intro fold_best_step_first_max) auto

text \<open>A quiz whose id is such a name is never reported.\<close>

lemma fold_best_step_inherited:
  "List.member object_prototype_names q \<Longrightarrow> fold best_step rows Map.empty q = None"
proof (induction rows rule: rev_induct)
  case Nil
  then show ?case by simp
next
  case (snoc x rows)
  then show ?case
    by (cases "qr_quizId x = q") (simp_all add: best_step_other best_step_inherited)
qed


text \<open>
  C8. With attempts of 60, 90 and 75 percent on \<open>q1\<close>, \<open>getBestQuizScores\<close> reports 90 for
  \<open>q1\<close>. The quiz called \<open>constructor\<close> has a row for the profile and is not reported: the
  lookup \<open>bestScores[r.quizId]\<close> on the object literal finds \<open>Object.prototype.constructor\<close>,
  which is truthy and has no \<open>percentage\<close>, so the row is never stored.
\<close>

theorem getBestQuizScores_inherited_name:
  "map (\<lambda>r. (qr_quizId (snd r), qr_percentage (snd r))) (quiz_byProfileId ''id1'' quiz_store)
   = [(''q1'', Some (Num 60)), (''q1'', Some (Num 90)), (''q1'', Some (Num 75)),
      (''constructor'', Some (Num 70))]
   \<and> map_option b_percentage (getBestQuizScores ''id1'' quiz_store ''q1'') = Some (Num 90)
   \<and> getBestQuizScores ''id1'' quiz_store ''constructor'' = None"
  by code_simp

subsection \<open>Export and import\<close>

lemma sorted_upsert:
  "sorted (map progress_key rows) \<Longrightarrow> sorted (map progress_key (upsert r rows))"
  unfolding upsert_def by (simp add: sorted_insort_key sorted_filter)

lemma filter_upsert:
  assumes "sorted (map progress_key rows)"
  shows "filter Q (upsert r rows) = (if Q r then upsert r (filter Q rows) else
          filter Q (filter (\<lambda>x. progress_key x \<noteq> progress_key r) rows))"
proof -
  have s: "sorted (map progress_key (filter (\<lambda>x. progress_key x \<noteq> progress_key r) rows))"
    using assms by (rule sorted_filter)
  have c: "filter Q (filter (\<lambda>x. progress_key x \<noteq> progress_key r) rows)
           = filter (\<lambda>x. progress_key x \<noteq> progress_key r) (filter Q rows)"
    by (induction rows) auto
  show ?thesis
    unfolding upsert_def using filter_insort [OF s, of Q r] c
    by (simp add: filter_insort_triv)
qed

lemma insort_key_last:
  "\<forall>x\<in>set rows. f x < f r \<Longrightarrow> insort_key f r rows = rows @ [r]"
  by (induction rows) auto

lemma upsert_last:
  assumes "\<forall>x\<in>set rows. progress_key x < progress_key r"
  shows "upsert r rows = rows @ [r]"
proof -
  have "filter (\<lambda>x. progress_key x \<noteq> progress_key r) rows = rows"
    using assms by (auto simp: filter_id_conv)
  with assms show ?thesis by (simp add: upsert_def insort_key_last)
qed

lemma fold_upsert_ordered:
  "sorted_wrt (<) (map progress_key rs) \<Longrightarrow> fold upsert rs [] = rs"
proof (induction rs rule: rev_induct)
  case Nil
  then show ?case by simp
next
  case (snoc r rs)
  then have "sorted_wrt (<) (map progress_key rs)" and "\<forall>x\<in>set rs. progress_key x < progress_key r"
    by (auto simp: sorted_wrt_append)
  with snoc.IH show ?case by (simp add: upsert_last)
qed

lemma filter_fold_upsert:
  assumes "sorted (map progress_key rows)" and "\<forall>r\<in>set rs. Q r"
  shows "filter Q (fold upsert rs rows) = fold upsert rs (filter Q rows)"
  using assms
proof (induction rs arbitrary: rows)
  case Nil
  then show ?case by simp
next
  case (Cons r rs)
  have "filter Q (fold upsert rs (upsert r rows)) = fold upsert rs (filter Q (upsert r rows))"
    using Cons.prems by (intro Cons.IH) (simp_all add: sorted_upsert)
  also have "filter Q (upsert r rows) = upsert r (filter Q rows)"
    using Cons.prems by (simp add: filter_upsert)
  finally show ?case by simp
qed

lemma or_null_idem [simp]: "or_null (or_null v) = or_null v"
  by (simp add: or_null_def)

lemma import_progress_None:
  "\<forall>p\<in>set ps. sg_lessonId p \<noteq> [] \<Longrightarrow>
   import_progress None pid ps (d, n)
   = Inr ((), (d\<lparr>progress :=
                  fold upsert
                    (map (\<lambda>p. \<lparr>pr_profileId = pid, pr_lessonId = sg_lessonId p,
                               pr_completed = sg_completed p,
                               pr_completedAt = or_null (sg_completedAt p)\<rparr>) ps)
                    (progress d)\<rparr>, n + length ps))"
  by (induction ps arbitrary: d n) (simp_all add: request_None put_progress_def)

lemma import_quiz_None:
  "\<forall>q\<in>set qs. sq_quizId q \<noteq> [] \<Longrightarrow>
   \<exists>d' n' new. import_quiz E None pid i qs (d, n) = Inr ((), (d', n'))
      \<and> profiles d' = profiles d \<and> progress d' = progress d
      \<and> quizResults d' = quizResults d @ new \<and> length new = length qs
      \<and> (\<forall>r\<in>set new. qr_profileId (snd r) = pid)"
proof (induction qs arbitrary: d n i)
  case Nil
  then show ?case by simp
next
  case (Cons q qs)
  let ?row = "\<lparr>qr_profileId = pid, qr_quizId = sq_quizId q, qr_score = sq_score q,
                qr_totalQuestions = sq_totalQuestions q, qr_answers = sq_answers q,
                qr_completedAt =
                  (if sq_completedAt q \<noteq> [] then sq_completedAt q else now E (2 + i)),
                qr_percentage =
                  (if sq_totalQuestions q \<noteq> 0
                   then Some (js_percentage (sq_score q) (sq_totalQuestions q))
                   else None)\<rparr>"
  let ?d1 = "snd (add_quiz ?row d)"
  from Cons.prems have "\<forall>q\<in>set qs. sq_quizId q \<noteq> []" by simp
  from Cons.IH [OF this, of "Suc i" ?d1 "Suc n"] obtain d' n' new where
    r: "import_quiz E None pid (Suc i) qs (?d1, Suc n) = Inr ((), (d', n'))"
    and f: "profiles d' = profiles ?d1" "progress d' = progress ?d1"
      "quizResults d' = quizResults ?d1 @ new" "length new = length qs"
      "\<forall>r\<in>set new. qr_profileId (snd r) = pid"
    by blast
  have "import_quiz E None pid i (q # qs) (d, n) = Inr ((), (d', n'))"
    using Cons.prems r by (simp add: request_None)
  moreover have "quizResults d' = quizResults d @ ((quizKeyGen d, ?row) # new)"
    using f(3) by (simp add: add_quiz_def)
  moreover have "profiles d' = profiles d" "progress d' = progress d"
    using f(1,2) by (simp_all add: add_quiz_def)
  ultimately show ?case
    using f(4,5)
    by (intro exI [of _ d'] exI [of _ n'] exI [of _ "(quizKeyGen d, ?row) # new"]) simp
qed

lemma import_body_None:
  assumes "profiles d pid = Some c"
    and "\<forall>p\<in>set (sn_progress s). sg_lessonId p \<noteq> []"
    and "\<forall>q\<in>set (sn_quizResults s). sq_quizId q \<noteq> []"
    and "profileId c = pid"
  shows "\<exists>d' n' new. import_body E None pid nm s (d, 0) = Inr (pid, (d', n'))
      \<and> profiles d' = (profiles d)(pid \<mapsto> c\<lparr>name := nm, updatedAt := now E 1\<rparr>)
      \<and> progress d'
          = fold upsert
              (map (\<lambda>p. \<lparr>pr_profileId = pid, pr_lessonId = sg_lessonId p,
                         pr_completed = sg_completed p,
                         pr_completedAt = or_null (sg_completedAt p)\<rparr>) (sn_progress s))
              (progress d)
      \<and> quizResults d' = quizResults d @ new \<and> length new = length (sn_quizResults s)
      \<and> (\<forall>r\<in>set new. qr_profileId (snd r) = pid)"
proof -
  let ?d2 = "put_profile (c\<lparr>name := nm, updatedAt := now E 1\<rparr>) d"
  let ?d3 = "?d2\<lparr>progress :=
                  fold upsert
                    (map (\<lambda>p. \<lparr>pr_profileId = pid, pr_lessonId = sg_lessonId p,
                               pr_completed = sg_completed p,
                               pr_completedAt = or_null (sg_completedAt p)\<rparr>) (sn_progress s))
                    (progress ?d2)\<rparr>"
  from import_quiz_None [OF assms(3), of E pid 0 ?d3 "2 + length (sn_progress s)"]
  obtain d' n' new where
    q: "import_quiz E None pid 0 (sn_quizResults s) (?d3, 2 + length (sn_progress s))
        = Inr ((), (d', n'))"
    and f: "profiles d' = profiles ?d3" "progress d' = progress ?d3"
      "quizResults d' = quizResults ?d3 @ new" "length new = length (sn_quizResults s)"
      "\<forall>r\<in>set new. qr_profileId (snd r) = pid"
    by blast
  have "import_body E None pid nm s (d, 0) = Inr (pid, (d', Suc n'))"
    unfolding import_body_def
    using assms(1) q
    by (simp add: request_None import_progress_None [OF assms(2)])
  moreover have "profiles d' = (profiles d)(pid \<mapsto> c\<lparr>name := nm, updatedAt := now E 1\<rparr>)"
    using f(1) assms(1,4) by (simp add: put_profile_def)
  ultimately show ?thesis
    using f(2,3,4,5)
    by (intro exI [of _ d'] exI [of _ "Suc n'"] exI [of _ new]) (simp add: put_profile_def)
qed

lemma progress_key_less_lesson:
  "pr_profileId x = pr_profileId y \<Longrightarrow> progress_key x < progress_key y \<Longrightarrow>
   pr_lessonId x < pr_lessonId y"
  by (simp add: progress_key_def less_prod_def')

text \<open>
  C5, as amended. Let the store hold the profile \<open>pid\<close> with a name that is not blank, let
  every progress row of the profile have a non-empty \<open>lessonId\<close> and every quiz row a
  non-empty \<open>quizId\<close>, and let the identifier the import draws be unused in the three stores.
  Then importing the export of the profile, with no storage failure, returns the new
  identifier; the new profile has the name of the old one, its progress rows say the same as
  the old one's, lesson by lesson (\<open>lessonId\<close>, \<open>completed\<close>, \<open>completedAt\<close>), and it has as
  many quiz rows.
\<close>

theorem export_import_round_trip:
  assumes ord: "progress_ordered d"
    and prof: "getProfile pid d = Some p"
    and nm: "js_trim (name p) \<noteq> []"
    and fresh: "getProfile (new_id E2) d = None" "progress_byProfileId (new_id E2) d = []"
      "quiz_byProfileId (new_id E2) d = []"
    and lessons: "\<forall>r\<in>set (progress_byProfileId pid d). pr_lessonId r \<noteq> []"
    and quizzes: "\<forall>r\<in>set (quiz_byProfileId pid d). qr_quizId (snd r) \<noteq> []"
    and exp: "exportProfileData E1 pid d = Inr s"
  shows "\<exists>d'. importProfileData P E2 None (Some s) None d = (Inr (new_id E2), d')
           \<and> map_option name (getProfile (new_id E2) d') = Some (name p)
           \<and> map progress_view (progress_byProfileId (new_id E2) d')
             = map progress_view (progress_byProfileId pid d)
           \<and> length (quiz_byProfileId (new_id E2) d') = length (quiz_byProfileId pid d)"
proof -
  let ?new = "new_id E2"
  let ?rows = "progress_byProfileId pid d"
  let ?retag = "\<lambda>p. \<lparr>pr_profileId = ?new, pr_lessonId = sg_lessonId p,
                         pr_completed = sg_completed p,
                         pr_completedAt = or_null (sg_completedAt p)\<rparr>"
  from nm have nm0: "name p \<noteq> []" by (auto simp: js_trim_def)
  from exp prof have s: "version s = 1" "sn_profile s \<noteq> None"
    "(case sn_profile s of None \<Rightarrow> [] | Some sp \<Rightarrow> sp_name sp) = name p"
    "sn_progress s
     = map (\<lambda>r. \<lparr>sg_lessonId = pr_lessonId r, sg_completed = pr_completed r,
                  sg_completedAt = or_null (pr_completedAt r)\<rparr>) ?rows"
    "length (sn_quizResults s) = length (quiz_byProfileId pid d)"
    "sn_quizResults s
     = map (\<lambda>r. \<lparr>sq_quizId = qr_quizId (snd r), sq_score = qr_score (snd r),
                  sq_totalQuestions = qr_totalQuestions (snd r),
                  sq_answers = qr_answers (snd r),
                  sq_completedAt = qr_completedAt (snd r)\<rparr>) (quiz_byProfileId pid d)"
    by (auto simp: exportProfileData_def getProfile_def)
  have sq: "\<forall>q\<in>set (sn_quizResults s). sq_quizId q \<noteq> []"
    using quizzes unfolding s(6) by simp
  have sl: "\<forall>p\<in>set (sn_progress s). sg_lessonId p \<noteq> []"
    using lessons by (simp add: s(4))
  define c where "c = \<lparr>profileId = ?new, name = js_trim (name p), createdAt = now E2 0,
      updatedAt = now E2 0, pinSalt = None, pinHash = None\<rparr>"
  define d1 where "d1 = put_profile c d"
  have cr: "createProfile P E2 (name p) None d = (Inr c, d1)"
    using nm nm0 by (simp add: createProfile_def truthy_def c_def d1_def Let_def)
  have c1: "profiles d1 ?new = Some c" "profileId c = ?new"
    by (simp_all add: d1_def put_profile_def c_def)
  from import_body_None [OF c1(1) sl sq c1(2), of E2 "name p"] obtain d' n' new where
    b: "import_body E2 None ?new (name p) s (d1, 0) = Inr (?new, (d', n'))"
    and f: "profiles d' = (profiles d1)(?new \<mapsto> c\<lparr>name := name p, updatedAt := now E2 1\<rparr>)"
      "progress d' = fold upsert (map ?retag (sn_progress s)) (progress d1)"
      "quizResults d' = quizResults d1 @ new" "length new = length (sn_quizResults s)"
      "\<forall>r\<in>set new. qr_profileId (snd r) = ?new"
    by blast
  have imp: "importProfileData P E2 None (Some s) None d = (Inr ?new, d')"
    using s(1,3) nm0 cr b c1(2)
    by (simp add: importProfileData_def truthy_def transaction_def Let_def)
  have 1: "map_option name (getProfile ?new d') = Some (name p)"
    using f(1) by (simp add: getProfile_def)
  have srt: "sorted_wrt (<) (map progress_key (progress d))"
    using ord by (simp add: progress_ordered_def)
  then have srt': "sorted (map progress_key (progress d))"
    by (rule strict_sorted_imp_sorted)
  have "sorted_wrt (\<lambda>x y. progress_key x < progress_key y) ?rows"
    using srt unfolding progress_byProfileId_def sorted_wrt_map by (rule sorted_wrt_filter)
  then have "sorted_wrt (\<lambda>x y. pr_lessonId x < pr_lessonId y) ?rows"
    by (rule sorted_wrt_mono_rel [rotated])
      (auto intro: progress_key_less_lesson simp: progress_byProfileId_def)
  then have so: "sorted_wrt (<) (map progress_key (map ?retag (sn_progress s)))"
    by (simp add: s(4) sorted_wrt_map progress_key_def comp_def less_prod_def')
  have "progress_byProfileId ?new d'
        = filter (\<lambda>r. pr_profileId r = ?new) (fold upsert (map ?retag (sn_progress s)) (progress d))"
    using f(2) by (simp add: progress_byProfileId_def d1_def put_profile_def)
  also have "\<dots> = fold upsert (map ?retag (sn_progress s))
                      (filter (\<lambda>r. pr_profileId r = ?new) (progress d))"
    using srt' by (intro filter_fold_upsert) auto
  also have "\<dots> = map ?retag (sn_progress s)"
    using fresh(2) so by (simp add: progress_byProfileId_def fold_upsert_ordered)
  finally have "map progress_view (progress_byProfileId ?new d')
                = map progress_view ?rows"
    by (simp add: s(4) progress_view_def comp_def)
  moreover have "length (quiz_byProfileId ?new d') = length (quiz_byProfileId pid d)"
    using f(3,4,5) fresh(3) s(5)
    by (simp add: quiz_byProfileId_def d1_def put_profile_def)
  ultimately show ?thesis using imp 1 by blast
qed

theorem export_import_round_trip_witness:
  "progress_ordered sample_store
   \<and> map progress_view (progress_byProfileId ''id1'' sample_store)
       = [(''arrays'', True, Some ''2024-01-01T00:00:00.000Z'')]
   \<and> length (quiz_byProfileId ''id1'' sample_store) = 1
   \<and> (\<exists>s d'. exportProfileData (sample_env ''x'') ''id1'' sample_store = Inr s
         \<and> importProfileData sample_platform (sample_env ''id2'') None (Some s) None sample_store
           = (Inr ''id2'', d')
         \<and> map_option name (getProfile ''id2'' d') = Some ''Ava''
         \<and> map progress_view (progress_byProfileId ''id2'' d')
           = [(''arrays'', True, Some ''2024-01-01T00:00:00.000Z'')]
         \<and> length (quiz_byProfileId ''id2'' d') = 1)"
proof -
  let ?p = "\<lparr>profileId = ''id1'', name = ''Ava'', createdAt = ''2024-01-01T00:00:00.000Z'',
             updatedAt = ''2024-01-01T00:00:00.000Z'', pinSalt = None, pinHash = None\<rparr>"
  have ord: "progress_ordered sample_store" by code_simp
  have prof: "getProfile ''id1'' sample_store = Some ?p" by code_simp
  have nm: "js_trim (name ?p) \<noteq> []" by code_simp
  have fresh: "getProfile (new_id (sample_env ''id2'')) sample_store = None"
    "progress_byProfileId (new_id (sample_env ''id2'')) sample_store = []"
    "quiz_byProfileId (new_id (sample_env ''id2'')) sample_store = []"
    by code_simp+
  have lessons: "\<forall>r\<in>set (progress_byProfileId ''id1'' sample_store). pr_lessonId r \<noteq> []"
    by code_simp
  have quizzes: "\<forall>r\<in>set (quiz_byProfileId ''id1'' sample_store). qr_quizId (snd r) \<noteq> []"
    by code_simp
  have v: "map progress_view (progress_byProfileId ''id1'' sample_store)
           = [(''arrays'', True, Some ''2024-01-01T00:00:00.000Z'')]"
    by code_simp
  have l: "length (quiz_byProfileId ''id1'' sample_store) = 1" by code_simp
  obtain s where exp: "exportProfileData (sample_env ''x'') ''id1'' sample_store = Inr s"
    using prof by (simp add: exportProfileData_def getProfile_def)
  have i: "new_id (sample_env ''id2'') = ''id2''" by (simp add: sample_env_def)
  from export_import_round_trip
    [OF ord prof nm fresh lessons quizzes exp, of sample_platform]
  show ?thesis using ord v l exp unfolding i by auto
qed

text \<open>
  C5 as stated fails: a profile with a progress row for the lesson with the empty id, which
  \<open>markLessonComplete\<close> stores, comes back from export and import without progress rows,
  because the import skips entries with a falsy \<open>lessonId\<close>.
\<close>

theorem export_import_round_trip_counterexample:
  "map progress_view (progress_byProfileId ''id1'' blank_lesson_store)
     = [('''', True, Some ''2024-01-01T00:00:00.000Z'')]
   \<and> (case exportProfileData (sample_env ''x'') ''id1'' blank_lesson_store of
         Inl e \<Rightarrow> False
       | Inr s \<Rightarrow>
           fst (importProfileData sample_platform (sample_env ''id2'') None (Some s) None
                  blank_lesson_store) = Inr ''id2''
           \<and> progress_byProfileId ''id2''
                (snd (importProfileData sample_platform (sample_env ''id2'') None (Some s) None
                        blank_lesson_store)) = [])"
  by code_simp

subsection \<open>Percentages\<close>

text \<open>
  For a score not above the number of questions the quotient is at most one, so its
  exponent is at most \<open>-52\<close>; the product with 100 keeps an exponent of at most \<open>-46\<close>. Each
  of the two roundings moves the value by at most half a unit in the last place, and
  \<open>Math.round\<close> by at most one half.
\<close>

lemma rne_cases:
  assumes "0 < d"
  shows "rne n d = n div d \<or> rne n d = n div d + 1"
  by (simp add: rne_def Let_def)

lemma rne_error:
  assumes "0 < d"
  shows "\<bar>real_of_int (rne n d) - real_of_int n / real_of_int d\<bar> \<le> 1 / 2"
proof -
  define q r where "q = n div d" and "r = n mod d"
  have n: "n = q * d + r" by (simp add: q_def r_def)
  have r: "0 \<le> r" "r < d" using assms by (simp_all add: r_def)
  have d: "0 < real_of_int d" using assms by simp
  have x: "real_of_int n / real_of_int d = real_of_int q + real_of_int r / real_of_int d"
    using assms by (simp add: n field_simps)
  have lo: "0 \<le> real_of_int r / real_of_int d" using r d by simp
  have hi: "real_of_int r / real_of_int d \<le> 1" using r d by simp
  have "2 * r < d \<or> d < 2 * r \<or> 2 * r = d" by linarith
  then show ?thesis
  proof (elim disjE)
    assume 1: "2 * r < d"
    then have "rne n d = q" by (simp add: rne_def Let_def q_def r_def)
    moreover from 1 have "2 * real_of_int r < real_of_int d" by linarith
    then have "real_of_int r / real_of_int d \<le> 1 / 2"
      using d by (simp add: field_simps)
    ultimately show ?thesis using lo by (simp add: x)
  next
    assume 2: "d < 2 * r"
    then have "rne n d = q + 1" by (simp add: rne_def Let_def q_def r_def)
    moreover from 2 have "real_of_int d < 2 * real_of_int r" by linarith
    then have "1 / 2 \<le> real_of_int r / real_of_int d"
      using d by (simp add: field_simps)
    ultimately show ?thesis using hi by (simp add: x)
  next
    assume 3: "2 * r = d"
    then have "2 * real_of_int r = real_of_int d" by linarith
    then have "real_of_int r / real_of_int d = 1 / 2"
      using d by (simp add: field_simps)
    with x have xx: "real_of_int n / real_of_int d = real_of_int q + 1 / 2" by simp
    have "rne n d = q \<or> rne n d = q + 1"
      using rne_cases [OF assms, of n] by (simp add: q_def)
    then show ?thesis
    proof
      assume "rne n d = q"
      then show ?thesis unfolding xx by simp
    next
      assume "rne n d = q + 1"
      then show ?thesis unfolding xx by simp
    qed
  qed
qed

lemma rne_le:
  assumes "0 < d" and "n \<le> N * d"
  shows "rne n d \<le> N"
proof -
  have "n div d \<le> (N * d) div d" using assms by (intro zdiv_mono1)
  then have q: "n div d \<le> N" using assms(1) by simp
  show ?thesis
  proof (cases "n div d = N")
    case True
    have "N * d + n mod d = n" unfolding True [symmetric] by simp
    moreover have "0 \<le> n mod d" using assms(1) by simp
    ultimately have "N * d \<le> n" by linarith
    then have "n = N * d" using assms(2) by simp
    then have "n mod d = 0" by simp
    then show ?thesis using assms(1) True by (simp add: rne_def Let_def)
  next
    case False
    with q have "n div d + 1 \<le> N" by simp
    with rne_cases [OF assms(1), of n] show ?thesis by auto
  qed
qed

lemma rne_nonneg:
  assumes "0 < d" and "0 \<le> n"
  shows "0 \<le> rne n d"
proof -
  have "0 \<le> n div d" using assms by (simp add: pos_imp_zdiv_nonneg_iff)
  with rne_cases [OF assms(1), of n] show ?thesis by auto
qed

lemma ilog2_small:
  assumes "0 < n" and "n \<le> d"
  shows "ilog2 n d \<le> 0"
proof -
  have "bitlen n \<le> bitlen d"
    using assms by (simp add: bitlen_def floorlog_mono)
  then show ?thesis by (simp add: ilog2_def)
qed

lemma fdiv_small:
  assumes "0 < n" and "n \<le> d"
  shows "\<exists>m j. fdiv n d = (m, - int j) \<and> 52 \<le> j \<and> 0 \<le> m \<and> m \<le> 2 ^ j
           \<and> \<bar>real_of_int m / 2 ^ j - real_of_int n / real_of_int d\<bar> \<le> 1 / 2 ^ 53"
proof -
  define j where "j = nat (52 - ilog2 n d)"
  define m where "m = rne (n * 2 ^ j) d"
  have k: "ilog2 n d \<le> 0" using assms by (rule ilog2_small)
  then have j: "52 \<le> j" "ilog2 n d - 52 = - int j" by (simp_all add: j_def)
  have d: "0 < d" using assms by simp
  have f: "fdiv n d = (m, - int j)"
    using j k by (simp add: fdiv_def Let_def m_def)
  have m0: "0 \<le> m" unfolding m_def using d assms(1) by (intro rne_nonneg) simp_all
  have m1: "m \<le> 2 ^ j" unfolding m_def using d assms(2) by (intro rne_le) simp_all
  have "\<bar>real_of_int m - real_of_int (n * 2 ^ j) / real_of_int d\<bar> \<le> 1 / 2"
    unfolding m_def using d by (rule rne_error)
  then have "\<bar>real_of_int m - real_of_int n / real_of_int d * 2 ^ j\<bar> / 2 ^ j \<le> 1 / 2 / 2 ^ j"
    by (intro divide_right_mono) simp_all
  moreover have "real_of_int m / 2 ^ j - real_of_int n / real_of_int d
                 = (real_of_int m - real_of_int n / real_of_int d * 2 ^ j) / 2 ^ j"
    by (simp add: field_simps)
  ultimately have e: "\<bar>real_of_int m / 2 ^ j - real_of_int n / real_of_int d\<bar> \<le> 1 / 2 / 2 ^ j"
    by (simp only: abs_divide) simp
  have "(2::real) ^ 52 \<le> 2 ^ j" using j(1) by (intro power_increasing) simp_all
  then have "1 / 2 / (2::real) ^ j \<le> 1 / 2 ^ 53"
    by (simp add: field_simps)
  with e have "\<bar>real_of_int m / 2 ^ j - real_of_int n / real_of_int d\<bar> \<le> 1 / 2 ^ 53"
    by linarith
  with f j(1) m0 m1 show ?thesis by blast
qed


lemma scaled_error:
  fixes a x :: real
  assumes "\<bar>a - x * 2 ^ j\<bar> \<le> 1 / 2"
  shows "\<bar>a / 2 ^ j - x\<bar> \<le> 1 / 2 ^ Suc j"
proof -
  from assms have "\<bar>a - x * 2 ^ j\<bar> / 2 ^ j \<le> 1 / 2 / 2 ^ j"
    by (intro divide_right_mono) simp_all
  moreover have "a / 2 ^ j - x = (a - x * 2 ^ j) / 2 ^ j"
    by (simp add: field_simps)
  ultimately show ?thesis
    by (simp only: abs_divide) simp
qed

lemma fmul_100_small:
  assumes "0 \<le> m" and "m \<le> 2 ^ j" and "52 \<le> j"
  shows "\<exists>m2 j2. fmul (m, - int j) 100 = (m2, - int j2) \<and> 46 \<le> j2 \<and> 0 \<le> m2
           \<and> m2 \<le> 100 * 2 ^ j2
           \<and> \<bar>real_of_int m2 / 2 ^ j2 - 100 * real_of_int m / 2 ^ j\<bar> \<le> 1 / 2 ^ 47"
proof (cases "bitlen (m * 100) - 53 \<le> 0")
  case True
  then have "fmul (m, - int j) 100 = (m * 100, - int j)"
    by (simp add: fmul_def round53_def Let_def)
  moreover have "46 \<le> j" using assms(3) by simp
  moreover have "0 \<le> m * 100" "m * 100 \<le> 100 * 2 ^ j" using assms by simp_all
  moreover have "\<bar>real_of_int (m * 100) / 2 ^ j - 100 * real_of_int m / 2 ^ j\<bar> \<le> 1 / 2 ^ 47"
    by simp
  ultimately show ?thesis by blast
next
  case False
  define x where "x = m * 100"
  define t where "t = nat (bitlen x - 53)"
  from False have t: "bitlen x = 53 + int t" "0 < t"
    by (simp_all add: t_def x_def)
  then have "bitlen x \<noteq> 0" by simp
  then have x0: "0 < x" by (simp add: bitlen_eq_zero_iff)
  from bitlen_bounds [OF x0] have "2 ^ nat (bitlen x - 1) \<le> x" by simp
  moreover have "nat (bitlen x - 1) = 52 + t" using t by simp
  ultimately have lo: "2 ^ (52 + t) \<le> x" by simp
  have "x \<le> 100 * 2 ^ j" using assms(2) by (simp add: x_def)
  also have "\<dots> < 128 * 2 ^ j" by simp
  also have "\<dots> = 2 ^ (j + 7)" by (simp add: power_add)
  finally have "x < 2 ^ (j + 7)" .
  with lo have "(2::int) ^ (52 + t) < 2 ^ (j + 7)" by (rule le_less_trans)
  then have "52 + t < j + 7" by (rule power_less_imp_less_exp [rotated]) simp
  then have tj: "t + 46 \<le> j" by simp
  define j2 where "j2 = j - t"
  define m2 where "m2 = rne x (2 ^ t)"
  have j2: "46 \<le> j2" "j = j2 + t" using tj by (simp_all add: j2_def)
  have f: "fmul (m, - int j) 100 = (m2, - int j2)"
    using False
    by (simp add: fmul_def round53_def Let_def x_def [symmetric] m2_def t(1) j2(2))
  have p: "(0::int) < 2 ^ t" by simp
  have m0: "0 \<le> m2" unfolding m2_def using p x0 by (intro rne_nonneg) simp_all
  have "x \<le> 100 * 2 ^ j2 * 2 ^ t"
    using assms(2) by (simp add: x_def j2(2) power_add)
  then have m1: "m2 \<le> 100 * 2 ^ j2" unfolding m2_def using p by (intro rne_le)
  have "\<bar>real_of_int m2 - real_of_int x / real_of_int (2 ^ t)\<bar> \<le> 1 / 2"
    unfolding m2_def using p by (rule rne_error)
  moreover have "real_of_int x / real_of_int (2 ^ t) = 100 * real_of_int m / 2 ^ j * 2 ^ j2"
    by (simp add: x_def j2(2) power_add)
  ultimately have "\<bar>real_of_int m2 - 100 * real_of_int m / 2 ^ j * 2 ^ j2\<bar> \<le> 1 / 2"
    by simp
  then have "\<bar>real_of_int m2 / 2 ^ j2 - 100 * real_of_int m / 2 ^ j\<bar> \<le> 1 / 2 ^ Suc j2"
    by (rule scaled_error)
  moreover have "(2::real) ^ 47 \<le> 2 ^ Suc j2" using j2(1) by (intro power_increasing) simp_all
  then have "1 / (2::real) ^ Suc j2 \<le> 1 / 2 ^ 47" by (simp add: field_simps)
  ultimately have "\<bar>real_of_int m2 / 2 ^ j2 - 100 * real_of_int m / 2 ^ j\<bar> \<le> 1 / 2 ^ 47"
    by linarith
  with f j2(1) m0 m1 show ?thesis by blast
qed

lemma math_round_small:
  assumes "0 \<le> m" and "m \<le> 100 * 2 ^ j" and "1 \<le> j"
  shows "0 \<le> math_round (m, - int j)" and "math_round (m, - int j) \<le> 100"
    and "\<bar>real_of_int (math_round (m, - int j)) - real_of_int m / 2 ^ j\<bar> \<le> 1 / 2"
proof -
  define a b where "a = 2 * m + 2 ^ j" and "b = (2::int) ^ Suc j"
  have r: "math_round (m, - int j) = a div b"
    using assms(3) by (simp add: math_round_def a_def b_def nat_add_distrib)
  have b: "0 < b" by (simp add: b_def)
  have q: "real_of_int a / real_of_int b = real_of_int m / 2 ^ j + 1 / 2"
    by (simp add: a_def b_def field_simps)
  have fl: "real_of_int (a div b) = of_int \<lfloor>real_of_int a / real_of_int b\<rfloor>"
    by (simp add: floor_divide_of_int_eq)
  have le: "real_of_int (a div b) \<le> real_of_int a / real_of_int b"
    unfolding fl by (rule of_int_floor_le)
  have gt: "real_of_int a / real_of_int b < real_of_int (a div b) + 1"
    unfolding fl by (rule real_of_int_floor_add_one_gt)
  show "\<bar>real_of_int (math_round (m, - int j)) - real_of_int m / 2 ^ j\<bar> \<le> 1 / 2"
    using le gt unfolding r q by linarith
  have "0 \<le> a" using assms(1) by (simp add: a_def)
  then show "0 \<le> math_round (m, - int j)"
    unfolding r using b by (simp add: pos_imp_zdiv_nonneg_iff)
  have "real_of_int m \<le> 100 * 2 ^ j"
    using assms(2) by (metis of_int_le_iff of_int_mult of_int_numeral of_int_power)
  then have "real_of_int m / 2 ^ j \<le> 100" by (simp add: field_simps)
  with le q have "real_of_int (a div b) < 101" by linarith
  then show "math_round (m, - int j) \<le> 100" unfolding r by linarith
qed

lemma rounding_chain:
  fixes p v w y c1 c2 c3 :: real
  assumes "\<bar>p - v\<bar> \<le> 1 / 2" and "\<bar>v - w\<bar> \<le> c2" and "\<bar>w - y\<bar> \<le> c1" and "c1 + c2 \<le> c3"
  shows "\<bar>p - y\<bar> \<le> 1 / 2 + c3"
  using assms by linarith

lemma js_percentage_bounds:
  assumes "0 < t" and "s \<le> t"
  shows "\<exists>p. js_percentage s t = Num p \<and> 0 \<le> p \<and> p \<le> 100
           \<and> \<bar>real_of_int p - 100 * real s / real t\<bar> \<le> 1 / 2 + 1 / 2 ^ 45"
proof (cases "s = 0")
  case True
  with assms show ?thesis by (simp add: js_percentage_def)
next
  case False
  then have n: "0 < int s" "int s \<le> int t" using assms by simp_all
  from fdiv_small [OF n] obtain m j where
    f: "fdiv (int s) (int t) = (m, - int j)" and j: "52 \<le> j" and m: "0 \<le> m" "m \<le> 2 ^ j"
    and e1: "\<bar>real_of_int m / 2 ^ j - real_of_int (int s) / real_of_int (int t)\<bar> \<le> 1 / 2 ^ 53"
    by blast
  from fmul_100_small [OF m j] obtain m2 j2 where
    g: "fmul (m, - int j) 100 = (m2, - int j2)" and j2: "46 \<le> j2"
    and m2: "0 \<le> m2" "m2 \<le> 100 * 2 ^ j2"
    and e2: "\<bar>real_of_int m2 / 2 ^ j2 - 100 * real_of_int m / 2 ^ j\<bar> \<le> 1 / 2 ^ 47"
    by blast
  from j2 have "1 \<le> j2" by simp
  note r = math_round_small [OF m2 this]
  define p where "p = math_round (m2, - int j2)"
  have "js_percentage s t = Num p"
    using assms(1) False by (simp add: js_percentage_def f g p_def)
  moreover have "\<bar>real_of_int p - 100 * real s / real t\<bar> \<le> 1 / 2 + 1 / 2 ^ 45"
  proof -
    have "\<bar>100 * (real_of_int m / 2 ^ j) - 100 * (real s / real t)\<bar>
          = 100 * \<bar>real_of_int m / 2 ^ j - real s / real t\<bar>"
      by (simp add: abs_if)
    also have "\<dots> \<le> 100 * (1 / 2 ^ 53)"
      using e1 by (intro mult_left_mono) simp_all
    finally have e3: "\<bar>100 * real_of_int m / 2 ^ j - 100 * real s / real t\<bar> \<le> 100 * (1 / 2 ^ 53)"
      by simp
    have c: "100 * (1 / 2 ^ 53) + 1 / 2 ^ 47 \<le> 1 / (2::real) ^ 45" by simp
    show ?thesis
      unfolding p_def by (rule rounding_chain [OF r(3) e2 e3 c])
  qed
  ultimately show ?thesis using r(1,2) unfolding p_def by blast
qed

text \<open>
  C7, as amended. For integers \<open>0 \<le> score \<le> totalQuestions\<close> with \<open>totalQuestions > 0\<close>,
  \<open>submitQuizResult\<close> appends one row, and the percentage it stores and returns is an integer
  between 0 and 100 that differs from \<open>100 * score / totalQuestions\<close> by at most
  \<open>1/2 + 2^-45\<close>: it is the exact percentage rounded to the nearest integer, or the
  neighbouring integer when the exact percentage lies within \<open>2^-45\<close> of a half.
\<close>

theorem submitQuizResult_percentage:
  assumes "0 < totalQuestions" and "score \<le> totalQuestions"
  shows "\<exists>p. fst (submitQuizResult E pid quizId score totalQuestions ans d)
               = (quizKeyGen d, now E 0, Num p)
           \<and> butlast (quizResults (snd (submitQuizResult E pid quizId score totalQuestions ans d)))
               = quizResults d
           \<and> qr_percentage
                 (snd (last (quizResults
                    (snd (submitQuizResult E pid quizId score totalQuestions ans d)))))
               = Some (Num p)
           \<and> 0 \<le> p \<and> p \<le> 100
           \<and> \<bar>real_of_int p - 100 * real score / real totalQuestions\<bar> \<le> 1 / 2 + 1 / 2 ^ 45"
proof -
  from js_percentage_bounds [OF assms] obtain p where
    "js_percentage score totalQuestions = Num p" "0 \<le> p" "p \<le> 100"
    "\<bar>real_of_int p - 100 * real score / real totalQuestions\<bar> \<le> 1 / 2 + 1 / 2 ^ 45"
    by blast
  then show ?thesis
    by (intro exI [of _ p]) (simp add: submitQuizResult_def add_quiz_def Let_def)
qed

theorem submitQuizResult_percentage_witness:
  "(0::nat) < 10 \<and> (9::nat) \<le> 10
   \<and> fst (submitQuizResult (sample_env ''x'') ''id1'' ''q1'' 9 10 [] empty_db)
       = (1, ''2024-01-01T00:00:00.000Z'', Num 90)
   \<and> \<bar>real_of_int 90 - 100 * real 9 / real 10\<bar> \<le> 1 / 2 + 1 / 2 ^ 45"
proof -
  have h: "(0::nat) < 10" "(9::nat) \<le> 10" by simp_all
  have e: "fst (submitQuizResult (sample_env ''x'') ''id1'' ''q1'' 9 10 [] empty_db)
           = (1, ''2024-01-01T00:00:00.000Z'', Num 90)"
    by code_simp
  from submitQuizResult_percentage [OF h, of "sample_env ''x''" "''id1''" "''q1''" "[]" empty_db]
  obtain p where
    "fst (submitQuizResult (sample_env ''x'') ''id1'' ''q1'' 9 10 [] empty_db)
     = (quizKeyGen empty_db, now (sample_env ''x'') 0, Num p)"
    "\<bar>real_of_int p - 100 * real 9 / real 10\<bar> \<le> 1 / 2 + 1 / 2 ^ 45"
    by blast
  with e have "\<bar>real_of_int 90 - 100 * real 9 / real 10\<bar> \<le> 1 / 2 + 1 / 2 ^ 45"
    by simp
  with h e show ?thesis by blast
qed

text \<open>
  C7 as stated fails twice. A score above the number of questions is accepted and gives a
  percentage above 100. And the quotient is rounded before it is multiplied: for 23 of 40
  the double \<open>(23 / 40) * 100\<close> is just below 57.5 and the stored percentage is 57, where
  \<open>100 * 23 / 40\<close> rounds to 58.
\<close>

theorem submitQuizResult_percentage_counterexample:
  "snd (snd (fst (submitQuizResult (sample_env ''x'') ''id1'' ''q1'' 11 10 [] empty_db)))
     = Num 110
   \<and> snd (snd (fst (submitQuizResult (sample_env ''x'') ''id1'' ''q1'' 23 40 [] empty_db)))
     = Num 57
   \<and> round (100 * 23 / 40 :: real) = 58"
proof -
  have "snd (snd (fst (submitQuizResult (sample_env ''x'') ''id1'' ''q1'' 11 10 [] empty_db)))
     = Num 110"
    by code_simp
  moreover have "snd (snd (fst (submitQuizResult (sample_env ''x'') ''id1'' ''q1'' 23 40 []
     empty_db))) = Num 57"
    by code_simp
  moreover have "round (100 * 23 / 40 :: real) = 58"
    by (simp add: round_def)
  ultimately show ?thesis by blast
qed

subsection \<open>The double precision operations round correctly\<close>

text \<open>
  The quotient and the product are the exact results rounded to a significand of at most
  53 bits, with an error of at most half a unit in the last place, and \<open>math_round\<close> is the
  floor of the value plus one half.
\<close>

lemma rne_ge:
  assumes "0 < d" and "N * d \<le> n"
  shows "N \<le> rne n d"
proof -
  have "(N * d) div d \<le> n div d" using assms by (intro zdiv_mono1)
  then have "N \<le> n div d" using assms(1) by simp
  with rne_cases [OF assms(1), of n] show ?thesis by auto
qed

lemma bitlen_pos_bounds:
  assumes "0 < n"
  shows "\<exists>a. bitlen n = int a + 1 \<and> 2 ^ a \<le> n \<and> n < 2 * 2 ^ a"
proof -
  from assms have "bitlen n \<noteq> 0" by (simp add: bitlen_eq_zero_iff)
  with bitlen_nonneg [of n] have p: "0 < bitlen n" by linarith
  define a where "a = nat (bitlen n - 1)"
  have b: "bitlen n = int a + 1" using p by (simp add: a_def)
  then have "nat (bitlen n) = Suc a" by simp
  with bitlen_bounds [OF assms] have "2 ^ a \<le> n \<and> n < 2 ^ Suc a"
    by (simp add: a_def)
  with b show ?thesis by auto
qed

lemma ilog2_bounds:
  assumes "0 < n" and "0 < d"
  shows "2 powi (ilog2 n d) \<le> real_of_int n / real_of_int d"
    and "real_of_int n / real_of_int d < 2 powi (ilog2 n d + 1)"
proof -
  from bitlen_pos_bounds [OF assms(1)] obtain a where
    a: "bitlen n = int a + 1" "2 ^ a \<le> n" "n < 2 * 2 ^ a" by blast
  from bitlen_pos_bounds [OF assms(2)] obtain b where
    b: "bitlen d = int b + 1" "2 ^ b \<le> d" "d < 2 * 2 ^ b" by blast
  define N D A B where "N = real_of_int n" and "D = real_of_int d"
    and "A = (2::real) ^ a" and "B = (2::real) ^ b"
  have pos: "0 < N" "0 < D" "0 < A" "0 < B" using assms by (simp_all add: N_def D_def A_def B_def)
  have "real_of_int (2 ^ a) \<le> N" "N < real_of_int (2 * 2 ^ a)"
    "real_of_int (2 ^ b) \<le> D" "D < real_of_int (2 * 2 ^ b)"
    unfolding N_def D_def using a(2,3) b(2,3) by (simp_all only: of_int_le_iff of_int_less_iff)
  then have bd: "A \<le> N" "N < 2 * A" "B \<le> D" "D < 2 * B"
    by (simp_all add: A_def B_def)
  have c: "(d * 2 ^ nat (bitlen n) \<le> n * 2 ^ nat (bitlen d)) = (D * A \<le> N * B)"
  proof -
    have "nat (bitlen n) = Suc a" "nat (bitlen d) = Suc b" using a(1) b(1) by simp_all
    then have "(d * 2 ^ nat (bitlen n) \<le> n * 2 ^ nat (bitlen d))
               = (real_of_int (d * 2 ^ Suc a) \<le> real_of_int (n * 2 ^ Suc b))"
      by (simp only: of_int_le_iff)
    also have "\<dots> = (D * A \<le> N * B)"
      by (simp add: N_def D_def A_def B_def)
    finally show ?thesis .
  qed
  have pw: "2 powi (int a - int b) = A / B"
    by (simp add: power_int_diff A_def B_def)
  have k0: "bitlen n - bitlen d = int a - int b" using a(1) b(1) by simp
  show "2 powi (ilog2 n d) \<le> real_of_int n / real_of_int d"
  proof (cases "D * A \<le> N * B")
    case True
    then have "ilog2 n d = int a - int b" using c k0 by (simp add: ilog2_def)
    moreover have "A / B \<le> N / D" using True pos by (simp add: field_simps)
    ultimately show ?thesis by (simp add: pw N_def D_def)
  next
    case False
    then have "ilog2 n d = int a - int b - 1" using c k0 by (simp add: ilog2_def)
    then have "2 powi (ilog2 n d) = A / B / 2"
      by (simp add: power_int_diff pw [symmetric])
    moreover have "A * D \<le> N * D" using bd(1) pos by simp
    moreover have "N * D \<le> N * (2 * B)" using bd(4) pos by simp
    ultimately have "A * D \<le> 2 * B * N" by (simp add: mult.commute)
    then have "A / B / 2 \<le> N / D" using pos by (simp add: field_simps)
    with \<open>2 powi (ilog2 n d) = A / B / 2\<close> show ?thesis by (simp add: N_def D_def)
  qed
  show "real_of_int n / real_of_int d < 2 powi (ilog2 n d + 1)"
  proof (cases "D * A \<le> N * B")
    case True
    then have "ilog2 n d = int a - int b" using c k0 by (simp add: ilog2_def)
    then have "2 powi (ilog2 n d + 1) = A / B * 2"
      by (simp add: power_int_add pw [symmetric])
    moreover have "N * B < 2 * A * B" using bd(2) pos by simp
    moreover have "2 * A * B \<le> 2 * A * D" using bd(3) pos by simp
    ultimately have "N * B < 2 * A * D" by linarith
    then have "N / D < A / B * 2" using pos by (simp add: field_simps)
    with \<open>2 powi (ilog2 n d + 1) = A / B * 2\<close> show ?thesis by (simp add: N_def D_def)
  next
    case False
    then have "ilog2 n d + 1 = int a - int b" using c k0 by (simp add: ilog2_def)
    moreover have "N / D < A / B" using False pos by (simp add: field_simps)
    ultimately show ?thesis by (simp add: pw N_def D_def)
  qed
qed


lemma rne_window:
  assumes "0 < den"
    and "real_of_int L \<le> real_of_int num / real_of_int den"
    and "real_of_int num / real_of_int den \<le> real_of_int U"
  shows "L \<le> rne num den" and "rne num den \<le> U"
proof -
  have d: "0 < real_of_int den" using assms(1) by simp
  from assms(2) d have "real_of_int L * real_of_int den \<le> real_of_int num"
    by (simp add: field_simps)
  then have "real_of_int (L * den) \<le> real_of_int num" by simp
  then have "L * den \<le> num" by (simp only: of_int_le_iff)
  with assms(1) show "L \<le> rne num den" by (rule rne_ge)
  from assms(3) d have "real_of_int num \<le> real_of_int U * real_of_int den"
    by (simp add: field_simps)
  then have "real_of_int num \<le> real_of_int (U * den)" by simp
  then have "num \<le> U * den" by (simp only: of_int_le_iff)
  with assms(1) show "rne num den \<le> U" by (rule rne_le)
qed

lemma fdiv_nearest:
  assumes "0 < n" and "0 < d"
  shows "snd (fdiv n d) = ilog2 n d - 52"
    and "2 ^ 52 \<le> fst (fdiv n d)" and "fst (fdiv n d) \<le> 2 ^ 53"
    and "\<bar>double_value (fdiv n d) - real_of_int n / real_of_int d\<bar>
         \<le> 2 powi (snd (fdiv n d)) / 2"
proof -
  define x where "x = real_of_int n / real_of_int d"
  define e where "e = ilog2 n d - 52"
  define y where "y = x * 2 powi (- e)"
  have pe: "0 < (2::real) powi e" "0 < (2::real) powi (- e)" by simp_all
  have inv: "(2::real) powi (- e) * 2 powi e = 1"
    by (simp add: power_int_minus)
  have lo: "2 powi (ilog2 n d) \<le> x" and hi: "x < 2 powi (ilog2 n d + 1)"
    unfolding x_def using ilog2_bounds [OF assms] by simp_all
  have "2 powi (ilog2 n d) * 2 powi (- e) \<le> y"
    unfolding y_def using lo pe by (intro mult_right_mono) simp_all
  moreover have "(2::real) powi (ilog2 n d) * 2 powi (- e) = 2 ^ 52"
    by (simp add: power_int_add [symmetric] e_def)
  ultimately have y0: "2 ^ 52 \<le> y" by simp
  have "y < 2 powi (ilog2 n d + 1) * 2 powi (- e)"
    unfolding y_def using hi pe by (intro mult_strict_right_mono) simp_all
  moreover have "(2::real) powi (ilog2 n d + 1) * 2 powi (- e) = 2 ^ 53"
    by (simp add: power_int_add [symmetric] e_def)
  ultimately have y1: "y \<le> 2 ^ 53" by simp
  obtain num den where nd: "0 < den" "real_of_int num / real_of_int den = y"
    "fdiv n d = (rne num den, e)"
  proof (cases "0 \<le> e")
    case True
    define j where "j = nat e"
    have ej: "e = int j" using True by (simp add: j_def)
    have "real_of_int n / real_of_int (d * 2 ^ j) = y"
      by (simp add: y_def x_def ej power_int_minus field_simps)
    moreover have "fdiv n d = (rne n (d * 2 ^ j), e)"
      using True by (simp add: fdiv_def Let_def e_def [symmetric] j_def)
    moreover have "0 < d * 2 ^ j" using assms(2) by simp
    ultimately show ?thesis by (rule that [rotated 1])
  next
    case False
    define j where "j = nat (- e)"
    have ej: "e = - int j" using False by (simp add: j_def)
    have "real_of_int (n * 2 ^ j) / real_of_int d = y"
      by (simp add: y_def x_def ej field_simps)
    moreover have "fdiv n d = (rne (n * 2 ^ j) d, e)"
      using False by (simp add: fdiv_def Let_def e_def [symmetric] j_def)
    ultimately show ?thesis using assms(2) by (rule that [rotated 1])
  qed
  show "snd (fdiv n d) = ilog2 n d - 52" by (simp add: nd(3) e_def)
  have "real_of_int (2 ^ 52) \<le> real_of_int num / real_of_int den"
    "real_of_int num / real_of_int den \<le> real_of_int (2 ^ 53)"
    using y0 y1 by (simp_all add: nd(2))
  from rne_window [OF nd(1) this]
  show "2 ^ 52 \<le> fst (fdiv n d)" "fst (fdiv n d) \<le> 2 ^ 53" by (simp_all add: nd(3))
  have "\<bar>real_of_int (rne num den) - y\<bar> \<le> 1 / 2"
    using rne_error [OF nd(1), of num] by (simp add: nd(2))
  then have "\<bar>real_of_int (rne num den) - y\<bar> * 2 powi e \<le> 1 / 2 * 2 powi e"
    using pe by (intro mult_right_mono) simp_all
  moreover have "\<bar>real_of_int (rne num den) - y\<bar> * 2 powi e
                 = \<bar>(real_of_int (rne num den) - y) * 2 powi e\<bar>"
    by (simp add: abs_mult)
  moreover have "(real_of_int (rne num den) - y) * 2 powi e
                 = real_of_int (rne num den) * 2 powi e - x"
    using inv by (simp add: y_def left_diff_distrib mult.assoc)
  ultimately show "\<bar>double_value (fdiv n d) - real_of_int n / real_of_int d\<bar>
         \<le> 2 powi (snd (fdiv n d)) / 2"
    by (simp add: double_value_def nd(3) x_def)
qed


lemma round53_exact:
  assumes "n < 2 ^ 53"
  shows "round53 (n, e) = (n, e)"
proof -
  have "bitlen n \<le> 53" using assms by (simp add: bitlen_le_iff_power)
  then show ?thesis by (simp add: round53_def)
qed

lemma round53_nearest:
  assumes "0 < n"
  shows "fst (round53 (n, e)) \<le> 2 ^ 53"
    and "\<bar>double_value (round53 (n, e)) - real_of_int n * 2 powi e\<bar>
         \<le> 2 powi (snd (round53 (n, e))) / 2"
proof -
  from bitlen_pos_bounds [OF assms] obtain a where
    a: "bitlen n = int a + 1" "2 ^ a \<le> n" "n < 2 * 2 ^ a" by blast
  have both: "fst (round53 (n, e)) \<le> 2 ^ 53
    \<and> \<bar>double_value (round53 (n, e)) - real_of_int n * 2 powi e\<bar>
         \<le> 2 powi (snd (round53 (n, e))) / 2"
  proof (cases "a \<le> 52")
    case True
    then have r: "round53 (n, e) = (n, e)" using a(1) by (simp add: round53_def)
    have "(2::int) ^ a \<le> 2 ^ 52" using True by (intro power_increasing) simp_all
    with a(3) have "n \<le> 2 ^ 53" by simp
    then show ?thesis by (simp add: r double_value_def)
  next
    case False
    define t where "t = a - 52"
    have t: "a = 52 + t" "bitlen n - 53 = int t" "0 < t" using False a(1) by (simp_all add: t_def)
    define m where "m = rne n (2 ^ t)"
    have r: "round53 (n, e) = (m, e + int t)"
      using t(2,3) by (simp add: round53_def Let_def m_def)
    have p: "(0::int) < 2 ^ t" by simp
    have "real_of_int (2 ^ a) \<le> real_of_int n" "real_of_int n < real_of_int (2 * 2 ^ a)"
      using a(2,3) by (simp_all only: of_int_le_iff of_int_less_iff)
    then have "2 ^ 52 * 2 ^ t \<le> real_of_int n" "real_of_int n \<le> 2 ^ 53 * 2 ^ t"
      by (simp_all add: t(1) power_add)
    then have "real_of_int (2 ^ 52) \<le> real_of_int n / real_of_int (2 ^ t)"
      "real_of_int n / real_of_int (2 ^ t) \<le> real_of_int (2 ^ 53)"
      by (simp_all add: field_simps)
    from rne_window(2) [OF p this] have m1: "m \<le> 2 ^ 53" by (simp add: m_def)
    have pe: "0 < (2::real) powi (e + int t)" by simp
    have sc: "(2::real) powi (e + int t) = 2 powi e * 2 ^ t"
      by (simp add: power_int_add)
    have "\<bar>real_of_int m - real_of_int n / real_of_int (2 ^ t)\<bar> \<le> 1 / 2"
      unfolding m_def using p by (rule rne_error)
    then have "\<bar>real_of_int m - real_of_int n / 2 ^ t\<bar> * 2 powi (e + int t)
               \<le> 1 / 2 * 2 powi (e + int t)"
      using pe by (intro mult_right_mono) simp_all
    moreover have "\<bar>real_of_int m - real_of_int n / 2 ^ t\<bar> * 2 powi (e + int t)
                   = \<bar>(real_of_int m - real_of_int n / 2 ^ t) * 2 powi (e + int t)\<bar>"
      by (simp add: abs_mult)
    moreover have "(real_of_int m - real_of_int n / 2 ^ t) * 2 powi (e + int t)
                   = real_of_int m * 2 powi (e + int t) - real_of_int n * 2 powi e"
      by (simp add: sc left_diff_distrib)
    ultimately have "\<bar>real_of_int m * 2 powi (e + int t) - real_of_int n * 2 powi e\<bar>
               \<le> 2 powi (e + int t) / 2"
      by simp
    with m1 show ?thesis by (simp add: r double_value_def)
  qed
  from both show "fst (round53 (n, e)) \<le> 2 ^ 53" ..
  from both show "\<bar>double_value (round53 (n, e)) - real_of_int n * 2 powi e\<bar>
         \<le> 2 powi (snd (round53 (n, e))) / 2" ..
qed

lemma fmul_nearest:
  assumes "0 < fst x" and "0 < c"
  shows "fst (fmul x c) \<le> 2 ^ 53"
    and "\<bar>double_value (fmul x c) - double_value x * real_of_int c\<bar>
         \<le> 2 powi (snd (fmul x c)) / 2"
proof -
  have p: "0 < fst x * c" using assms by simp
  show "fst (fmul x c) \<le> 2 ^ 53"
    unfolding fmul_def using p by (rule round53_nearest)
  have "real_of_int (fst x * c) * 2 powi (snd x) = double_value x * real_of_int c"
    by (simp add: double_value_def)
  then show "\<bar>double_value (fmul x c) - double_value x * real_of_int c\<bar>
         \<le> 2 powi (snd (fmul x c)) / 2"
    unfolding fmul_def using round53_nearest(2) [OF p, of "snd x"] by (simp only:)
qed

lemma math_round_floor:
  assumes "0 \<le> fst x"
  shows "math_round x = \<lfloor>double_value x + 1 / 2\<rfloor>"
proof (cases "0 \<le> snd x")
  case True
  define j where "j = nat (snd x)"
  have e: "snd x = int j" using True by (simp add: j_def)
  have "double_value x + 1 / 2 = real_of_int (fst x * 2 ^ j) + 1 / 2"
    by (simp add: double_value_def e)
  then have "\<lfloor>double_value x + 1 / 2\<rfloor> = fst x * 2 ^ j"
    by (simp only:) linarith
  moreover have "math_round x = fst x * 2 ^ j"
    using True by (cases x) (simp add: math_round_def j_def)
  ultimately show ?thesis by simp
next
  case False
  define j where "j = nat (- snd x)"
  have e: "snd x = - int j" using False by (simp add: j_def)
  have "nat (1 - snd x) = Suc j" using False by (simp add: j_def)
  then have m: "math_round x = (2 * fst x + 2 ^ j) div 2 ^ Suc j"
    using False by (cases x) (simp add: math_round_def j_def)
  have "double_value x + 1 / 2
        = real_of_int (2 * fst x + 2 ^ j) / real_of_int (2 ^ Suc j)"
    by (simp add: double_value_def e power_int_minus field_simps)
  then show ?thesis
    unfolding m by (simp only: floor_divide_of_int_eq)
qed

end
